theory Spec2Isabelle
  imports Complex_Main "HOL-Library.Word"
begin

unbundle bit_operations_syntax

section \<open>The heatmap decoder of process\_adsb\_data.py\<close>

text \<open>
  This theory embeds \<^verbatim>\<open>parse_binary_file\<close> of
  \<^verbatim>\<open>src/backend-data-loading/process_adsb_data.py\<close>.

  Conventions of the embedding:
  \<^item> a numpy \<^verbatim>\<open>int32\<close> is a \<open>32 word\<close>; the \<^verbatim>\<open>uint32\<close> view of the same
    array is the same word read with \<open>unat\<close>, the signed view is \<open>sint\<close>;
  \<^item> the \<^verbatim>\<open>uint8\<close> view is the little-endian byte sequence of the words;
  \<^item> an index outside an array raises \<^verbatim>\<open>IndexError\<close>: every read goes through
    \<open>getitem\<close>, which returns \<open>Inl IndexError\<close> there;
  \<^item> a Python float is the real number it holds. The time stamp \<^verbatim>\<open>now\<close> and the
    subtraction of the 60-second test are computed as \<^verbatim>\<open>float64\<close> computes them: every
    operation is the exact one followed by \<open>round64\<close>, rounding to the nearest number with
    53 significant bits, ties to even. The exponent range of \<^verbatim>\<open>float64\<close> is not
    modelled: no value of the decoder comes near its ends. The quotients \<^verbatim>\<open>lat\<close>,
    \<^verbatim>\<open>lon\<close> and \<^verbatim>\<open>gs\<close> are kept exact;
  \<^item> the dictionaries \<^verbatim>\<open>acinfo\<close> and \<^verbatim>\<open>last_seen\<close> are maps, the list
    \<^verbatim>\<open>data\<close> is a list that grows at its end;
  \<^item> the keys of the emitted dictionary are the fields of the record \<open>ac\<close>, prefixed
    with \<open>ac_\<close>.
\<close>

subsection \<open>Data\<close>

type_synonym u8 = "8 word"
type_synonym i32 = "32 word"

datatype error = IndexError | AssertionError | OSError

text \<open>What the path names: nothing, something \<^verbatim>\<open>np.fromfile\<close> cannot read, or bytes.\<close>

datatype file_state = Missing | Unreadable | Content "u8 list"

record ac =
  ac_t :: real
  ac_hex :: string
  ac_flight :: "string option"
  ac_squawk :: "string option"
  ac_lat :: real
  ac_lon :: real
  ac_alt :: int
  ac_gs :: "real option"
  ac_type :: nat

record pstate =
  acinfo :: "string \<rightharpoonup> (string option \<times> string)"
  last_seen :: "string \<rightharpoonup> real"
  data :: "ac list"

subsection \<open>Arrays and views\<close>

definition getitem :: "'a list \<Rightarrow> nat \<Rightarrow> error + 'a" where
  "getitem xs i = (if i < length xs then Inr (xs ! i) else Inl IndexError)"

definition le32 :: "u8 \<Rightarrow> u8 \<Rightarrow> u8 \<Rightarrow> u8 \<Rightarrow> i32" where
  "le32 b0 b1 b2 b3 =
     ucast b0 OR push_bit 8 (ucast b1) OR push_bit 16 (ucast b2) OR push_bit 24 (ucast b3)"

text \<open>\<^verbatim>\<open>np.fromfile(file_path, dtype=np.int32)\<close>: whole items only, a tail of one to
  three bytes is dropped.\<close>

fun fromfile :: "u8 list \<Rightarrow> i32 list" where
  "fromfile (b0 # b1 # b2 # b3 # bs) = le32 b0 b1 b2 b3 # fromfile bs"
| "fromfile bs = []"

definition le_bytes :: "i32 \<Rightarrow> u8 list" where
  "le_bytes w = [ucast w, ucast (drop_bit 8 w), ucast (drop_bit 16 w), ucast (drop_bit 24 w)]"

text \<open>\<^verbatim>\<open>points.view(np.uint8)\<close>.\<close>

definition view_u8 :: "i32 list \<Rightarrow> u8 list" where
  "view_u8 points = concat (map le_bytes points)"

subsection \<open>Formatting\<close>

definition digit_char :: "nat \<Rightarrow> char" where
  "digit_char d = ''0123456789abcdef'' ! d"

fun hex_digits :: "nat \<Rightarrow> nat list" where
  "hex_digits n = (if n < 16 then [n] else hex_digits (n div 16) @ [n mod 16])"

fun dec_digits :: "nat \<Rightarrow> nat list" where
  "dec_digits n = (if n < 10 then [n] else dec_digits (n div 10) @ [n mod 10])"

declare hex_digits.simps [simp del] dec_digits.simps [simp del]

definition zero_pad :: "nat \<Rightarrow> string \<Rightarrow> string" where
  "zero_pad w s = replicate (w - length s) CHR ''0'' @ s"

text \<open>\<^verbatim>\<open>f"{n:06x}"\<close> and \<^verbatim>\<open>f"{n:04d}"\<close> for \<open>n \<ge> 0\<close>: the width is a minimum.\<close>

definition format_06x :: "nat \<Rightarrow> string" where
  "format_06x n = zero_pad 6 (map digit_char (hex_digits n))"

definition format_04d :: "nat \<Rightarrow> string" where
  "format_04d n = zero_pad 4 (map digit_char (dec_digits n))"

subsection \<open>Double precision\<close>

text \<open>The number of bits of \<open>n\<close>.\<close>

fun bit_length :: "nat \<Rightarrow> nat" where
  "bit_length n = (if n = 0 then 0 else Suc (bit_length (n div 2)))"

declare bit_length.simps [simp del]

text \<open>The binary exponent of \<open>x \<noteq> 0\<close>: the \<open>e\<close> with \<open>2 ^ e \<le> \<bar>x\<bar> < 2 ^ (e + 1)\<close>.\<close>

definition exponent :: "real \<Rightarrow> int" where
  "exponent x =
     (if 1 \<le> \<bar>x\<bar> then int (bit_length (nat \<lfloor>\<bar>x\<bar>\<rfloor>)) - 1
      else - int (bit_length (nat (\<lceil>1 / \<bar>x\<bar>\<rceil> - 1))))"

text \<open>\<open>x\<close> times \<open>2 ^ e\<close>.\<close>

definition scale2 :: "int \<Rightarrow> real \<Rightarrow> real" where
  "scale2 e x = (if 0 \<le> e then x * 2 ^ nat e else x / 2 ^ nat (- e))"

text \<open>The nearest integer, the even one of two that are equally near.\<close>

definition round_even :: "real \<Rightarrow> int" where
  "round_even y =
     (let n = \<lfloor>y\<rfloor>; r = y - of_int n
      in if r < 1 / 2 then n else if 1 / 2 < r then n + 1 else if even n then n else n + 1)"

text \<open>The \<^verbatim>\<open>float64\<close> nearest to \<open>x\<close>: \<open>x\<close> is scaled to have 53 bits before the binary
  point, rounded there and scaled back.\<close>

definition round64 :: "real \<Rightarrow> real" where
  "round64 x =
     (if x = 0 then 0
      else let e = exponent x - 52 in scale2 e (of_int (round_even (scale2 (- e) x))))"

subsection \<open>The fields of a record\<close>

definition sentinel :: i32 where
  "sentinel = 243235997"

text \<open>Lines 125-126: \<^verbatim>\<open>hex = f"{points[i] & 16777215:06x}"\<close>, with \<^verbatim>\<open>~\<close> in front when
  bit 24 is set.\<close>

definition hex_of :: "i32 \<Rightarrow> string" where
  "hex_of w0 =
     (let hex = format_06x (unat (w0 AND 16777215))
      in if w0 AND push_bit 24 1 \<noteq> 0 then CHR ''~'' # hex else hex)"

text \<open>Line 162: \<^verbatim>\<open>(pointsU[i] >> 27) & 31\<close>.\<close>

definition type_num :: "i32 \<Rightarrow> nat" where
  "type_num w0 = unat (drop_bit 27 w0 AND 31)"

text \<open>Line 128: \<^verbatim>\<open>lat > 1073741824\<close> on the signed word.\<close>

definition is_identity :: "i32 \<Rightarrow> bool" where
  "is_identity lat \<longleftrightarrow> 1073741824 < sint lat"

text \<open>Line 136: \<^verbatim>\<open>f"{lat & 65535:04d}"\<close>.\<close>

definition squawk_of :: "i32 \<Rightarrow> string" where
  "squawk_of lat = format_04d (unat (lat AND 65535))"

text \<open>Lines 142-145: \<^verbatim>\<open>lat /= 1e6\<close>, \<^verbatim>\<open>lon /= 1e6\<close> and the strict range test.\<close>

definition degrees :: "i32 \<Rightarrow> real" where
  "degrees raw = real_of_int (sint raw) / 1000000"

definition in_range :: "i32 \<Rightarrow> i32 \<Rightarrow> bool" where
  "in_range lat lon \<longleftrightarrow>
     degrees lat > - 90 \<and> degrees lat < 90 \<and> degrees lon > - 180 \<and> degrees lon < 180"

text \<open>Lines 167-171: \<^verbatim>\<open>alt = points[i + 3] & 65535\<close>, then \<^verbatim>\<open>alt |= -65536\<close> when
  \<^verbatim>\<open>alt & 32768\<close>.\<close>

definition alt_raw :: "i32 \<Rightarrow> i32" where
  "alt_raw w3 = (let alt = w3 AND 65535 in if alt AND 32768 \<noteq> 0 then alt OR (- 65536) else alt)"

text \<open>Line 175: \<^verbatim>\<open>alt = -123 if alt == -123 else alt * 25\<close>, a product of \<^verbatim>\<open>int32\<close>.\<close>

definition alt_of :: "i32 \<Rightarrow> int" where
  "alt_of w3 = (let alt = alt_raw w3 in if alt = - 123 then - 123 else sint (alt * 25))"

text \<open>Line 178: \<^verbatim>\<open>gs = points[i + 3] >> 16\<close>, the shift of a signed \<^verbatim>\<open>int32\<close>.\<close>

definition gs_raw :: "i32 \<Rightarrow> i32" where
  "gs_raw w3 = signed_drop_bit 16 w3"

text \<open>Line 181: \<^verbatim>\<open>gs = None if gs == -1 else gs / 10\<close>.\<close>

definition gs_of :: "i32 \<Rightarrow> real option" where
  "gs_of w3 = (let gs = gs_raw w3 in if gs = - 1 then None else Some (real_of_int (sint gs) / 10))"

text \<open>Lines 185-195: the emitted dictionary.\<close>

definition mk_ac :: "real \<Rightarrow> string option \<Rightarrow> string option \<Rightarrow> i32 \<Rightarrow> i32 \<Rightarrow> i32 \<Rightarrow> i32 \<Rightarrow> ac" where
  "mk_ac now flight squawk w0 lat lon w3 =
     \<lparr>ac_t = now, ac_hex = hex_of w0, ac_flight = flight, ac_squawk = squawk,
      ac_lat = degrees lat, ac_lon = degrees lon, ac_alt = alt_of w3, ac_gs = gs_of w3,
      ac_type = type_num w0\<rparr>"

subsection \<open>The loops\<close>

text \<open>Lines 133-134: \<^verbatim>\<open>for j in range(0, 8): flight += chr(pointsU8[4 * (i + 2) + j])\<close>.\<close>

fun flight_chars :: "u8 list \<Rightarrow> nat \<Rightarrow> nat list \<Rightarrow> string \<Rightarrow> error + string" where
  "flight_chars pointsU8 base [] flight = Inr flight"
| "flight_chars pointsU8 base (j # js) flight =
     (case getitem pointsU8 (base + j) of
        Inl e \<Rightarrow> Inl e
      | Inr b \<Rightarrow> flight_chars pointsU8 base js (flight @ [char_of (unat b)]))"

text \<open>Lines 129-134.\<close>

definition read_flight :: "u8 list \<Rightarrow> nat \<Rightarrow> error + string option" where
  "read_flight pointsU8 i =
     (case getitem pointsU8 (4 * (i + 2)) of
        Inl e \<Rightarrow> Inl e
      | Inr b \<Rightarrow>
          if b \<noteq> 0
          then (case flight_chars pointsU8 (4 * (i + 2)) [0..<8] [] of
                  Inl e \<Rightarrow> Inl e
                | Inr flight \<Rightarrow> Inr (Some flight))
          else Inr None)"

text \<open>Lines 139-140: \<^verbatim>\<open>acinfo.get(hex, (None, None))[0]\<close> and \<^verbatim>\<open>[1]\<close>.\<close>

definition lookup_flight :: "(string \<rightharpoonup> (string option \<times> string)) \<Rightarrow> string \<Rightarrow> string option" where
  "lookup_flight m hex = (case m hex of None \<Rightarrow> None | Some v \<Rightarrow> fst v)"

definition lookup_squawk :: "(string \<rightharpoonup> (string option \<times> string)) \<Rightarrow> string \<Rightarrow> string option" where
  "lookup_squawk m hex = (case m hex of None \<Rightarrow> None | Some v \<Rightarrow> Some (snd v))"

text \<open>Lines 128-140: an identity record writes the state table, any other record reads it.
  The result is \<open>(flight, squawk, state)\<close>.\<close>

definition identity_or_lookup ::
  "i32 list \<Rightarrow> nat \<Rightarrow> i32 \<Rightarrow> string \<Rightarrow> pstate \<Rightarrow> error + (string option \<times> string option \<times> pstate)" where
  "identity_or_lookup points i lat hex st =
     (if is_identity lat
      then (case read_flight (view_u8 points) i of
              Inl e \<Rightarrow> Inl e
            | Inr flight \<Rightarrow>
                Inr (flight, Some (squawk_of lat),
                     st\<lparr>acinfo := (acinfo st)(hex \<mapsto> (flight, squawk_of lat))\<rparr>))
      else Inr (lookup_flight (acinfo st) hex, lookup_squawk (acinfo st) hex, st))"

text \<open>Line 184: \<^verbatim>\<open>(hex in last_seen and now - last_seen[hex] >= 60) or not hex in last_seen\<close>,
  a subtraction of \<^verbatim>\<open>float64\<close>.\<close>

definition gate :: "(string \<rightharpoonup> real) \<Rightarrow> string \<Rightarrow> real \<Rightarrow> bool" where
  "gate last_seen_map hex now \<longleftrightarrow> (case last_seen_map hex of None \<Rightarrow> True | Some t0 \<Rightarrow> round64 (now - t0) \<ge> 60)"

text \<open>Lines 122-200: the body of the \<^verbatim>\<open>while\<close> loop, for the record at word \<open>i\<close>.\<close>

definition record_body :: "i32 list \<Rightarrow> real \<Rightarrow> nat \<Rightarrow> pstate \<Rightarrow> error + pstate" where
  "record_body points now i st =
     (case getitem points (i + 1) of Inl e \<Rightarrow> Inl e | Inr lat \<Rightarrow>
     (case getitem points (i + 2) of Inl e \<Rightarrow> Inl e | Inr lon \<Rightarrow>
     (case getitem points i of Inl e \<Rightarrow> Inl e | Inr w0 \<Rightarrow>
     (case identity_or_lookup points i lat (hex_of w0) st of Inl e \<Rightarrow> Inl e
      | Inr (flight, squawk, st1) \<Rightarrow>
          if in_range lat lon
          then (case getitem points (i + 3) of Inl e \<Rightarrow> Inl e | Inr w3 \<Rightarrow>
                  if gate (last_seen st1) (hex_of w0) now
                  then Inr (st1\<lparr>last_seen := (last_seen st1)(hex_of w0 \<mapsto> now),
                                data := data st1 @ [mk_ac now flight squawk w0 lat lon w3]\<rparr>)
                  else Inr st1)
          else Inr st1))))"

text \<open>Lines 121-200: \<^verbatim>\<open>while i < len(points) and 243235997 != points[i]\<close>.\<close>

function while_records :: "i32 list \<Rightarrow> real \<Rightarrow> nat \<Rightarrow> pstate \<Rightarrow> error + pstate" where
  "while_records points now i st =
     (if i < length points \<and> sentinel \<noteq> points ! i
      then (case record_body points now i st of
              Inl e \<Rightarrow> Inl e
            | Inr st' \<Rightarrow> while_records points now (i + 4) st')
      else Inr st)"
  by pat_completeness auto
termination
  by (relation "measure (\<lambda>(points, now, i, st). length points - i)") auto

declare while_records.simps [simp del]

text \<open>Line 117: \<^verbatim>\<open>now = pointsU[i + 2] / 1e3 + 4294967.296 * pointsU[i + 1]\<close>, in
  \<^verbatim>\<open>float64\<close>: the two words convert exactly, the literal \<^verbatim>\<open>4294967.296\<close> is the
  \<^verbatim>\<open>float64\<close> nearest to it, and the quotient, the product and the sum are each rounded.\<close>

definition frame_time :: "i32 \<Rightarrow> i32 \<Rightarrow> real" where
  "frame_time u2 u1 =
     round64 (round64 (real (unat u2) / 1000) + round64 (round64 4294967.296 * real (unat u1)))"

text \<open>Lines 113-200: the body of the loop over the slices, for the frame that starts at word
  \<open>s\<close>. The state table \<^verbatim>\<open>acinfo\<close> is assigned \<^verbatim>\<open>{}\<close> here, at the start of every frame;
  \<^verbatim>\<open>last_seen\<close> and \<^verbatim>\<open>data\<close> are assigned once, before the loop.\<close>

definition frame_body :: "i32 list \<Rightarrow> nat \<Rightarrow> pstate \<Rightarrow> error + pstate" where
  "frame_body points s st =
     (case getitem points (s + 2) of Inl e \<Rightarrow> Inl e | Inr u2 \<Rightarrow>
     (case getitem points (s + 1) of Inl e \<Rightarrow> Inl e | Inr u1 \<Rightarrow>
        while_records points (frame_time u2 u1) (s + 4) (st\<lparr>acinfo := Map.empty\<rparr>)))"

fun for_slices :: "i32 list \<Rightarrow> nat list \<Rightarrow> pstate \<Rightarrow> error + pstate" where
  "for_slices points [] st = Inr st"
| "for_slices points (s # ss) st =
     (case frame_body points s st of
        Inl e \<Rightarrow> Inl e
      | Inr st' \<Rightarrow> for_slices points ss st')"

text \<open>Lines 97-103: the indices \<^verbatim>\<open>range(0, len(points), 4)\<close> that hold the sentinel.\<close>

definition find_slices :: "i32 list \<Rightarrow> nat list" where
  "find_slices points =
     filter (\<lambda>i. points ! i = sentinel) (map (\<lambda>k. 4 * k) [0..<(length points + 3) div 4])"

text \<open>Lines 83-203: the body of the \<^verbatim>\<open>try\<close> statement.\<close>

definition try_body :: "file_state \<Rightarrow> error + ac list" where
  "try_body f =
     (case f of
        Content bytes \<Rightarrow>
          (let points = fromfile bytes in
           if length points = 0 then Inr []
           else if length (view_u8 points) \<noteq> length points * 4 then Inl AssertionError
           else if find_slices points = [] then Inr []
           else (case for_slices points (find_slices points)
                        \<lparr>acinfo = Map.empty, last_seen = Map.empty, data = []\<rparr> of
                   Inl e \<Rightarrow> Inl e
                 | Inr st \<Rightarrow> Inr (data st)))
      | _ \<Rightarrow> Inl OSError)"

text \<open>Lines 77-79 and 205-207: a path that does not exist gives \<^verbatim>\<open>[]\<close>, and so does every
  exception of the body.\<close>

definition parse_binary_file :: "file_state \<Rightarrow> ac list" where
  "parse_binary_file f =
     (if f = Missing then []
      else (case try_body f of Inl e \<Rightarrow> [] | Inr d \<Rightarrow> d))"

subsection \<open>What the loops compute, stated without the loops\<close>

text \<open>The call sign that an identity record at word \<open>i\<close> carries, when all four words of
  the record are in the array.\<close>

definition flight_at :: "i32 list \<Rightarrow> nat \<Rightarrow> string option" where
  "flight_at points i =
     (if view_u8 points ! (4 * (i + 2)) \<noteq> 0
      then Some (map (\<lambda>j. char_of (unat (view_u8 points ! (4 * (i + 2) + j)))) [0..<8])
      else None)"

text \<open>What the record at word \<open>i\<close> does to the state table.\<close>

definition identity_write ::
  "i32 list \<Rightarrow> nat \<Rightarrow> (string \<rightharpoonup> (string option \<times> string)) \<Rightarrow> (string \<rightharpoonup> (string option \<times> string))" where
  "identity_write points i m =
     (if is_identity (points ! (i + 1))
      then m(hex_of (points ! i) \<mapsto> (flight_at points i, squawk_of (points ! (i + 1))))
      else m)"

text \<open>The state table after the first \<open>k\<close> records of the frame whose sentinel is at word
  \<open>s\<close>: it starts empty with the frame.\<close>

fun frame_table :: "i32 list \<Rightarrow> nat \<Rightarrow> nat \<Rightarrow> (string \<rightharpoonup> (string option \<times> string))" where
  "frame_table points s 0 = Map.empty"
| "frame_table points s (Suc k) = identity_write points (s + 4 + 4 * k) (frame_table points s k)"

text \<open>\<open>a\<close> is the dictionary built from record number \<open>k\<close> of the frame whose sentinel is at
  word \<open>s\<close>: a position record inside the array, in range, with no sentinel between the frame
  header and the record, stamped with the time of that frame and with the call sign and squawk
  that this frame has given its hex so far.\<close>

definition emitted_at :: "i32 list \<Rightarrow> nat \<Rightarrow> nat \<Rightarrow> ac \<Rightarrow> bool" where
  "emitted_at points s k a \<longleftrightarrow>
     (let i = s + 4 + 4 * k; hex = hex_of (points ! i) in
        i + 3 < length points \<and> points ! s = sentinel \<and>
        list_all (\<lambda>j. points ! (s + 4 + 4 * j) \<noteq> sentinel) [0..<Suc k] \<and>
        \<not> is_identity (points ! (i + 1)) \<and> in_range (points ! (i + 1)) (points ! (i + 2)) \<and>
        a = mk_ac (frame_time (points ! (s + 2)) (points ! (s + 1)))
              (lookup_flight (frame_table points s k) hex)
              (lookup_squawk (frame_table points s k) hex)
              (points ! i) (points ! (i + 1)) (points ! (i + 2)) (points ! (i + 3)))"



subsection \<open>Files used as examples\<close>

text \<open>One frame stamped 1000 s that holds one record.\<close>

definition one_position :: "i32 \<Rightarrow> i32 \<Rightarrow> i32 \<Rightarrow> i32 \<Rightarrow> i32 list" where
  "one_position w0 lat lon w3 = [243235997, 0, 1000000, 0, w0, lat, lon, w3]"


text \<open>One frame stamped 1000 s with two positions of the aircraft \<^verbatim>\<open>0abcde\<close>: the first at
  latitude 95, out of range, the second at 47 N 8 E.\<close>

definition out_then_in :: "i32 list" where
  "out_then_in =
     [243235997, 0, 1000000, 0,
      703710, 95000000, 8000000, 163840004,
      703710, 47000000, 8000000, 163840004]"

text \<open>The aircraft \<^verbatim>\<open>0abcde\<close> with an identity record (call sign \<^verbatim>\<open>BAW123\<close> and two
  spaces, squawk word 1800) and a position at 47 N 8 E: both in one frame stamped 1000 s, and
  the identity in a frame stamped 1000 s with the position in the next frame, stamped 2000 s.\<close>

definition same_frame :: "i32 list" where
  "same_frame =
     [243235997, 0, 1000000, 0,
      703710, 1073743624, 827801922, 538981170,
      703710, 47000000, 8000000, 163840004]"

definition next_frame :: "i32 list" where
  "next_frame =
     [243235997, 0, 1000000, 0,
      703710, 1073743624, 827801922, 538981170,
      243235997, 0, 2000000, 0,
      703710, 47000000, 8000000, 163840004]"


subsection \<open>Reading digit strings back\<close>

text \<open>The inverse of \<open>digit_char\<close> on the sixteen digits, and the number that a string of
  digits writes in base \<open>b\<close>. The decoder has no such function; they state what the strings
  it formats mean.\<close>

definition digit_value :: "char \<Rightarrow> nat" where
  "digit_value c = (let k = of_char c :: nat in if k < 58 then k - 48 else k - 87)"

definition digits_value :: "nat \<Rightarrow> string \<Rightarrow> nat" where
  "digits_value b s = foldl (\<lambda>acc c. b * acc + digit_value c) 0 s"

subsection \<open>Re-encoding a record\<close>

text \<open>The tuple \<open>(hex, type, lat_raw, lon_raw, alt_raw, gs_raw)\<close> that the decoder computes from
  the record at word \<open>i\<close> (lines 122-126, 162, 167-171 and 178).\<close>

definition decoded_tuple :: "i32 list \<Rightarrow> nat \<Rightarrow> string \<times> nat \<times> i32 \<times> i32 \<times> i32 \<times> i32" where
  "decoded_tuple points i =
     (hex_of (points ! i), type_num (points ! i), points ! (i + 1), points ! (i + 2),
      alt_raw (points ! (i + 3)), gs_raw (points ! (i + 3)))"

text \<open>Modelled from the spec: the repository has no encoder, so the record layout of section 3
  of the specification is read as one. Word 0 holds the 24-bit address written by the hex
  digits, bit 24 for a leading \<^verbatim>\<open>~\<close> and the type in bits 27 to 31; words 1 and 2 are
  \<open>lat_raw\<close> and \<open>lon_raw\<close>; word 3 holds \<open>gs_raw\<close> in its high half and the low 16 bits of
  \<open>alt_raw\<close> in its low half; the four words are written little-endian.\<close>

definition encode_record :: "string \<times> nat \<times> i32 \<times> i32 \<times> i32 \<times> i32 \<Rightarrow> u8 list" where
  "encode_record tuple =
     (case tuple of (hex, type_code, lat_raw, lon_raw, alt, gs) \<Rightarrow>
        let tilde = (hex \<noteq> [] \<and> hd hex = CHR ''~'');
            addr = digits_value 16 (if tilde then tl hex else hex);
            w0 = word_of_nat addr OR (if tilde then push_bit 24 1 else 0) OR
                 push_bit 27 (word_of_nat type_code);
            w3 = push_bit 16 gs OR (alt AND 65535)
        in le_bytes w0 @ le_bytes lat_raw @ le_bytes lon_raw @ le_bytes w3)"

section \<open>Basic facts\<close>

lemma getitem_Inr: "i < length xs \<Longrightarrow> getitem xs i = Inr (xs ! i)"
  by (simp add: getitem_def)

lemma getitem_Inl: "\<not> i < length xs \<Longrightarrow> getitem xs i = Inl IndexError"
  by (simp add: getitem_def)

lemma getitem_Inr_iff: "getitem xs i = Inr x \<longleftrightarrow> i < length xs \<and> x = xs ! i"
  by (auto simp: getitem_def)

lemma le32_le_bytes:
  "le32 (ucast w) (ucast (drop_bit 8 w)) (ucast (drop_bit 16 w)) (ucast (drop_bit 24 w)) = w"
  unfolding le32_def
proof (rule bit_word_eqI)
  fix n assume "n < LENGTH(32)"
  then consider "n < 8" | "8 \<le> n" "n < 16" | "16 \<le> n" "n < 24" | "24 \<le> n" "n < 32"
    by fastforce
  then show "bit (ucast (ucast w :: u8) OR push_bit 8 (ucast (ucast (drop_bit 8 w) :: u8)) OR
        push_bit 16 (ucast (ucast (drop_bit 16 w) :: u8)) OR
        push_bit 24 (ucast (ucast (drop_bit 24 w) :: u8)) :: i32) n = bit w n"
    by cases (auto simp: bit_simps)
qed

lemma le_bytes_le32: "le_bytes (le32 b0 b1 b2 b3) = [b0, b1, b2, b3]"
  unfolding le32_def le_bytes_def
  apply simp
  apply (intro conjI bit_word_eqI)
     apply (auto simp: bit_simps dest: bit_imp_le_length)
  done

lemma fromfile_view_u8: "fromfile (view_u8 ws) = ws"
  by (induction ws) (simp_all add: view_u8_def le_bytes_def le32_le_bytes)

lemma length_view_u8: "length (view_u8 ws) = length ws * 4"
  by (induction ws) (simp_all add: view_u8_def le_bytes_def)

lemma length_fromfile: "length (fromfile bs) = length bs div 4"
  by (induction bs rule: fromfile.induct) simp_all

lemma view_u8_fromfile: "view_u8 (fromfile bs) = take (4 * (length bs div 4)) bs"
  by (induction bs rule: fromfile.induct) (simp_all add: view_u8_def le_bytes_le32 take_Cons')

lemma in_range_iff:
  "in_range lat lon \<longleftrightarrow>
     - 90000000 < sint lat \<and> sint lat < 90000000 \<and> - 180000000 < sint lon \<and> sint lon < 180000000"
proof -
  have "\<And>x::int. (real_of_int x / 1000000 < 90) = (x < 90000000)"
       "\<And>x::int. (- 90 < real_of_int x / 1000000) = (- 90000000 < x)"
       "\<And>x::int. (real_of_int x / 1000000 < 180) = (x < 180000000)"
       "\<And>x::int. (- 180 < real_of_int x / 1000000) = (- 180000000 < x)"
    by (simp_all add: field_simps) linarith+
  then show ?thesis
    unfolding in_range_def degrees_def by blast
qed

lemma identity_not_in_range: "is_identity lat \<Longrightarrow> \<not> in_range lat lon"
  by (simp add: is_identity_def in_range_iff)

subsection \<open>Rounding\<close>

lemmas round64_eval = round64_def exponent_def scale2_def round_even_def Let_def bit_length.simps

lemma round64_examples:
  "round64 30 = 30" "round64 50 = 50" "round64 61 = 61" "round64 100 = 100"
  by (simp_all add: round64_eval)

lemma frame_time_examples:
  "frame_time 1000000 0 = 1000" "frame_time 1030000 0 = 1030" "frame_time 1061000 0 = 1061"
  "frame_time 2000000 0 = 2000"
  "frame_time 1 0 = 1152921504606847 / 1152921504606846976"
  "frame_time 60001 0 = 8444390038808035 / 140737488355328"
  by (simp_all add: frame_time_def round64_eval)

text \<open>A header whose second word is 416 and whose third word is 4294954864: the three
  roundings give the \<^verbatim>\<open>float64\<close> that Python prints as \<^verbatim>\<open>1791001350.0000002\<close>, not the
  exact value 1791001350.\<close>

lemma frame_time_rounded:
  "frame_time 4294954864 416 = 7512004126310401 / 4194304"
  "frame_time 4294954864 416 \<noteq> 1791001350"
  by (simp_all add: frame_time_def round64_eval)

lemma round_even_cases: "round_even y = \<lfloor>y\<rfloor> \<or> round_even y = \<lfloor>y\<rfloor> + 1 \<and> 1 / 2 \<le> y - of_int \<lfloor>y\<rfloor>"
  by (auto simp: round_even_def Let_def)

lemma round_even_nonpos: "y \<le> 0 \<Longrightarrow> round_even y \<le> 0"
proof -
  assume y: "y \<le> 0"
  then have f: "\<lfloor>y\<rfloor> \<le> 0" by (simp add: floor_le_zero)
  from round_even_cases [of y] show ?thesis
  proof
    assume "round_even y = \<lfloor>y\<rfloor>" with f show ?thesis by simp
  next
    assume a: "round_even y = \<lfloor>y\<rfloor> + 1 \<and> 1 / 2 \<le> y - of_int \<lfloor>y\<rfloor>"
    then have "of_int \<lfloor>y\<rfloor> < y" by linarith
    with y have "of_int \<lfloor>y\<rfloor> < (0 :: real)" by linarith
    then have "\<lfloor>y\<rfloor> < 0" by simp
    with a show ?thesis by simp
  qed
qed



lemma scale2_powi: "scale2 e x = x * 2 powi e"
  by (simp add: scale2_def power_int_def field_simps)

lemma round64_nonpos: "x \<le> 0 \<Longrightarrow> round64 x \<le> 0"
proof -
  assume x: "x \<le> 0"
  have "x * 2 powi e \<le> 0" for e :: int
    using x by (simp add: mult_le_0_iff)
  then have "round_even (x * 2 powi e) \<le> 0" for e :: int
    by (rule round_even_nonpos)
  then have "real_of_int (round_even (x * 2 powi e)) * 2 powi e' \<le> 0" for e e' :: int
    by (simp add: mult_le_0_iff)
  then show ?thesis by (simp add: round64_def Let_def scale2_powi)
qed






subsection \<open>One record\<close>

lemma flight_chars_Inr:
  "\<forall>j\<in>set js. base + j < length u \<Longrightarrow>
   flight_chars u base js acc = Inr (acc @ map (\<lambda>j. char_of (unat (u ! (base + j)))) js)"
  by (induction js arbitrary: acc) (simp_all add: getitem_def)

lemma read_flight_Inr:
  assumes "i + 3 < length points"
  shows "read_flight (view_u8 points) i = Inr (flight_at points i)"
proof -
  have "\<forall>j\<in>set [0..<8]. 4 * (i + 2) + j < length (view_u8 points)"
    using assms by (auto simp: length_view_u8)
  then have "flight_chars (view_u8 points) (4 * (i + 2)) [0..<8] [] =
      Inr (map (\<lambda>j. char_of (unat (view_u8 points ! (4 * (i + 2) + j)))) [0..<8])"
    by (simp only: flight_chars_Inr append_Nil)
  moreover have "4 * (i + 2) < length (view_u8 points)"
    using assms by (simp add: length_view_u8)
  ultimately show ?thesis
    by (simp add: read_flight_def flight_at_def getitem_Inr)
qed

lemma record_body_identity:
  assumes "i + 3 < length points" "is_identity (points ! (i + 1))"
  shows "record_body points now i st =
    Inr (st\<lparr>acinfo := (acinfo st)(hex_of (points ! i) \<mapsto>
                 (flight_at points i, squawk_of (points ! (i + 1))))\<rparr>)"
  using assms
  by (simp add: record_body_def getitem_Inr identity_or_lookup_def read_flight_Inr
      identity_not_in_range)

lemma record_body_position:
  assumes "i + 3 < length points" "\<not> is_identity (points ! (i + 1))"
  shows "record_body points now i st =
    Inr (if in_range (points ! (i + 1)) (points ! (i + 2)) \<and>
            gate (last_seen st) (hex_of (points ! i)) now
         then st\<lparr>last_seen := (last_seen st)(hex_of (points ! i) \<mapsto> now),
                 data := data st @ [mk_ac now (lookup_flight (acinfo st) (hex_of (points ! i)))
                     (lookup_squawk (acinfo st) (hex_of (points ! i)))
                     (points ! i) (points ! (i + 1)) (points ! (i + 2)) (points ! (i + 3))]\<rparr>
         else st)"
  using assms
  by (simp add: record_body_def getitem_Inr identity_or_lookup_def)

subsection \<open>Invariants of the loops\<close>

lemma while_records_step:
  "i < length points \<Longrightarrow> points ! i \<noteq> sentinel \<Longrightarrow>
   while_records points now i st =
     (case record_body points now i st of
        Inl e \<Rightarrow> Inl e
      | Inr st' \<Rightarrow> while_records points now (i + 4) st')"
  by (subst while_records.simps) auto

lemma while_records_stop:
  "\<not> i < length points \<or> points ! i = sentinel \<Longrightarrow> while_records points now i st = Inr st"
  by (subst while_records.simps) auto

lemma while_records_invariant:
  assumes "\<And>i st st'. P st \<Longrightarrow> record_body points now i st = Inr st' \<Longrightarrow> P st'"
    and "P st" and "while_records points now i st = Inr st'"
  shows "P st'"
  using assms
proof (induction points now i st rule: while_records.induct)
  case (1 points now i st)
  note step = "1.prems"(1)
  show ?case
  proof (cases "i < length points \<and> sentinel \<noteq> points ! i")
    case True
    with "1.prems"(3) obtain st1 where
      b: "record_body points now i st = Inr st1" and
      w: "while_records points now (i + 4) st1 = Inr st'"
      by (subst (asm) while_records.simps) (auto split: sum.splits)
    from "1.prems"(2) b have "P st1" by (rule step)
    with True b w step show ?thesis by (intro "1.IH") auto
  next
    case False
    with "1.prems" show ?thesis
      by (subst (asm) while_records.simps) auto
  qed
qed

lemma frame_body_invariant:
  assumes step: "\<And>now i st st'. P st \<Longrightarrow> record_body points now i st = Inr st' \<Longrightarrow> P st'"
    and reset: "\<And>st. P st \<Longrightarrow> P (st\<lparr>acinfo := Map.empty\<rparr>)"
  shows "P st \<Longrightarrow> frame_body points s st = Inr st' \<Longrightarrow> P st'"
  unfolding frame_body_def
  by (auto split: sum.splits intro: while_records_invariant [where P = P] step reset)


lemma parse_member:
  assumes "a \<in> set (parse_binary_file f)"
  obtains bs st where "f = Content bs"
    and "for_slices (fromfile bs) (find_slices (fromfile bs))
           \<lparr>acinfo = Map.empty, last_seen = Map.empty, data = []\<rparr> = Inr st"
    and "parse_binary_file f = data st"
  using assms
  by (cases f) (auto simp: parse_binary_file_def try_body_def Let_def split: sum.splits if_splits)


lemma find_slices_set:
  "s \<in> set (find_slices points) \<longleftrightarrow> s < length points \<and> 4 dvd s \<and> points ! s = sentinel"
  unfolding find_slices_def by (auto elim!: dvdE)

subsection \<open>What a record that raises nothing has done\<close>

lemma flight_chars_InrD:
  "flight_chars u base js acc = Inr s \<Longrightarrow>
   s = acc @ map (\<lambda>j. char_of (unat (u ! (base + j)))) js"
  by (induction js arbitrary: acc) (force simp: getitem_def split: if_splits)+

lemma read_flight_InrD:
  assumes "read_flight (view_u8 points) i = Inr fl"
  shows "fl = flight_at points i"
  using assms flight_chars_InrD [of "view_u8 points" "4 * (i + 2)" "[0..<8]" "[]"]
  by (auto simp: read_flight_def flight_at_def getitem_def split: if_splits sum.splits)

lemma record_body_InrD:
  assumes "record_body points now i st = Inr st'"
  shows "i + 2 < length points"
    and "acinfo st' = identity_write points i (acinfo st)"
    and "(last_seen st' = last_seen st \<and> data st' = data st) \<or>
         (i + 3 < length points \<and> \<not> is_identity (points ! (i + 1)) \<and>
          in_range (points ! (i + 1)) (points ! (i + 2)) \<and>
          gate (last_seen st) (hex_of (points ! i)) now \<and>
          last_seen st' = (last_seen st)(hex_of (points ! i) \<mapsto> now) \<and>
          data st' = data st @ [mk_ac now (lookup_flight (acinfo st) (hex_of (points ! i)))
                     (lookup_squawk (acinfo st) (hex_of (points ! i)))
                     (points ! i) (points ! (i + 1)) (points ! (i + 2)) (points ! (i + 3))])"
proof -
  from assms show len: "i + 2 < length points"
    by (auto simp: record_body_def getitem_def split: if_splits)
  show "acinfo st' = identity_write points i (acinfo st)"
  proof (cases "is_identity (points ! (i + 1))")
    case True
    with assms len show ?thesis
      by (auto simp: record_body_def getitem_def identity_or_lookup_def identity_write_def
          identity_not_in_range dest!: read_flight_InrD split: sum.splits)
  next
    case False
    with assms len show ?thesis
      by (auto simp: record_body_def getitem_def identity_or_lookup_def identity_write_def
          split: if_splits)
  qed
  show "(last_seen st' = last_seen st \<and> data st' = data st) \<or>
         (i + 3 < length points \<and> \<not> is_identity (points ! (i + 1)) \<and>
          in_range (points ! (i + 1)) (points ! (i + 2)) \<and>
          gate (last_seen st) (hex_of (points ! i)) now \<and>
          last_seen st' = (last_seen st)(hex_of (points ! i) \<mapsto> now) \<and>
          data st' = data st @ [mk_ac now (lookup_flight (acinfo st) (hex_of (points ! i)))
                     (lookup_squawk (acinfo st) (hex_of (points ! i)))
                     (points ! i) (points ! (i + 1)) (points ! (i + 2)) (points ! (i + 3))])"
  proof (cases "is_identity (points ! (i + 1))")
    case True
    with assms len show ?thesis
      by (auto simp: record_body_def getitem_def identity_or_lookup_def
          identity_not_in_range split: sum.splits)
  next
    case False
    with assms len show ?thesis
      by (auto simp: record_body_def getitem_def identity_or_lookup_def split: if_splits)
  qed
qed

subsection \<open>Where an emitted dictionary comes from\<close>

lemma emitted_at_iff:
  "emitted_at points s k a \<longleftrightarrow>
     s + 4 + 4 * k + 3 < length points \<and> points ! s = sentinel \<and>
     (\<forall>j<Suc k. points ! (s + 4 + 4 * j) \<noteq> sentinel) \<and>
     \<not> is_identity (points ! (s + 4 + 4 * k + 1)) \<and>
     in_range (points ! (s + 4 + 4 * k + 1)) (points ! (s + 4 + 4 * k + 2)) \<and>
     a = mk_ac (frame_time (points ! (s + 2)) (points ! (s + 1)))
           (lookup_flight (frame_table points s k) (hex_of (points ! (s + 4 + 4 * k))))
           (lookup_squawk (frame_table points s k) (hex_of (points ! (s + 4 + 4 * k))))
           (points ! (s + 4 + 4 * k)) (points ! (s + 4 + 4 * k + 1))
           (points ! (s + 4 + 4 * k + 2)) (points ! (s + 4 + 4 * k + 3))"
  unfolding emitted_at_def Let_def list_all_iff by (simp only: set_upt atLeastLessThan_iff) auto

lemma while_records_emitted:
  assumes "while_records points now i st = Inr st'"
    and "i = s + 4 + 4 * k"
    and "points ! s = sentinel"
    and "now = frame_time (points ! (s + 2)) (points ! (s + 1))"
    and "acinfo st = frame_table points s k"
    and "\<forall>j<k. points ! (s + 4 + 4 * j) \<noteq> sentinel"
    and "\<forall>a\<in>set (data st). \<exists>s k. emitted_at points s k a"
  shows "\<forall>a\<in>set (data st'). \<exists>s k. emitted_at points s k a"
  using assms
proof (induction points now i st arbitrary: k rule: while_records.induct)
  case (1 points now i st)
  show ?case
  proof (cases "i < length points \<and> sentinel \<noteq> points ! i")
    case True
    with "1.prems"(1) obtain st1 where
      b: "record_body points now i st = Inr st1" and
      w: "while_records points now (i + 4) st1 = Inr st'"
      by (subst (asm) while_records.simps) (auto split: sum.splits)
    have tab: "acinfo st1 = frame_table points s (Suc k)"
      using record_body_InrD(2) [OF b] "1.prems"(2,5) by simp
    have nos: "\<forall>j<Suc k. points ! (s + 4 + 4 * j) \<noteq> sentinel"
      using "1.prems"(2,6) True by (auto simp: less_Suc_eq)
    have dat: "\<forall>a\<in>set (data st1). \<exists>s k. emitted_at points s k a"
    proof -
      from record_body_InrD(3) [OF b] show ?thesis
      proof
        assume "last_seen st1 = last_seen st \<and> data st1 = data st"
        with "1.prems"(7) show ?thesis by simp
      next
        assume new: "i + 3 < length points \<and> \<not> is_identity (points ! (i + 1)) \<and>
          in_range (points ! (i + 1)) (points ! (i + 2)) \<and>
          gate (last_seen st) (hex_of (points ! i)) now \<and>
          last_seen st1 = (last_seen st)(hex_of (points ! i) \<mapsto> now) \<and>
          data st1 = data st @ [mk_ac now (lookup_flight (acinfo st) (hex_of (points ! i)))
                     (lookup_squawk (acinfo st) (hex_of (points ! i)))
                     (points ! i) (points ! (i + 1)) (points ! (i + 2)) (points ! (i + 3))]"
        have "emitted_at points s k (mk_ac now (lookup_flight (acinfo st) (hex_of (points ! i)))
                     (lookup_squawk (acinfo st) (hex_of (points ! i)))
                     (points ! i) (points ! (i + 1)) (points ! (i + 2)) (points ! (i + 3)))"
          unfolding emitted_at_iff using new nos "1.prems"(2,3,4,5) by simp
        with new "1.prems"(7) show ?thesis by auto
      qed
    qed
    show ?thesis
      by (rule "1.IH" [OF True b w _ "1.prems"(3,4) tab nos dat]) (simp add: "1.prems"(2))
  next
    case False
    with "1.prems" show ?thesis
      by (subst (asm) while_records.simps) auto
  qed
qed

lemma frame_body_emitted:
  assumes "frame_body points s st = Inr st'"
    and "points ! s = sentinel"
    and "\<forall>a\<in>set (data st). \<exists>s k. emitted_at points s k a"
  shows "\<forall>a\<in>set (data st'). \<exists>s k. emitted_at points s k a"
proof -
  from assms(1) have len: "s + 2 < length points"
    and w: "while_records points (frame_time (points ! (s + 2)) (points ! (s + 1))) (s + 4)
          (st\<lparr>acinfo := Map.empty\<rparr>) = Inr st'"
    by (auto simp: frame_body_def getitem_def split: if_splits)
  show ?thesis
    by (rule while_records_emitted [OF w, where s = s and k = 0]) (use assms in simp_all)
qed

lemma for_slices_emitted:
  assumes "for_slices points ss st = Inr st'"
    and "\<forall>s\<in>set ss. points ! s = sentinel"
    and "\<forall>a\<in>set (data st). \<exists>s k. emitted_at points s k a"
  shows "\<forall>a\<in>set (data st'). \<exists>s k. emitted_at points s k a"
  using assms
proof (induction ss arbitrary: st)
  case Nil
  then show ?case by simp
next
  case (Cons s ss)
  from Cons.prems(1) obtain st1 where
    f: "frame_body points s st = Inr st1" and r: "for_slices points ss st1 = Inr st'"
    by (auto split: sum.splits)
  have "\<forall>a\<in>set (data st1). \<exists>s k. emitted_at points s k a"
    by (rule frame_body_emitted [OF f]) (use Cons.prems in simp_all)
  with r Cons.prems(2) show ?case by (intro Cons.IH) simp_all
qed

lemma parse_emitted:
  assumes "a \<in> set (parse_binary_file f)"
  shows "\<exists>bs s k. f = Content bs \<and> emitted_at (fromfile bs) s k a"
proof -
  from assms obtain bs st where f: "f = Content bs"
    and fs: "for_slices (fromfile bs) (find_slices (fromfile bs))
           \<lparr>acinfo = Map.empty, last_seen = Map.empty, data = []\<rparr> = Inr st"
    and d: "parse_binary_file f = data st"
    by (rule parse_member)
  have "\<forall>a\<in>set (data st). \<exists>s k. emitted_at (fromfile bs) s k a"
    by (rule for_slices_emitted [OF fs]) (simp_all add: find_slices_set)
  with assms d f show ?thesis by auto
qed

subsection \<open>The spacing of the emitted time stamps\<close>

lemma ac_hex_mk_ac [simp]: "ac_hex (mk_ac now fl sq w0 lat lon w3) = hex_of w0"
  and ac_t_mk_ac [simp]: "ac_t (mk_ac now fl sq w0 lat lon w3) = now"
  by (simp_all add: mk_ac_def)






subsection \<open>The fields as numbers\<close>

lemma bit_65535: "bit (65535 :: int) n \<longleftrightarrow> n < 16"
proof -
  have "(65535 :: int) = mask 16" by (simp add: mask_eq_exp_minus_1)
  then show ?thesis by (simp only: bit_mask_iff) auto
qed

lemma bit_32768: "bit (32768 :: int) n \<longleftrightarrow> n = 15"
proof -
  have "(32768 :: int) = 2 ^ 15" by simp
  then show ?thesis by (simp only: bit_exp_iff) auto
qed

lemma bit_m65536: "bit (- 65536 :: int) n \<longleftrightarrow> 16 \<le> n"
proof -
  have "(- 65536 :: int) = NOT (mask 16)" by (simp add: mask_eq_exp_minus_1)
  then show ?thesis by (simp only: bit_not_iff bit_mask_iff) auto
qed

lemma bit_31: "bit (31 :: int) n \<longleftrightarrow> n < 5"
proof -
  have "(31 :: int) = mask 5" by (simp add: mask_eq_exp_minus_1)
  then show ?thesis by (simp only: bit_mask_iff) auto
qed

lemma bit_16777215: "bit (16777215 :: int) n \<longleftrightarrow> n < 24"
proof -
  have "(16777215 :: int) = mask 24" by (simp add: mask_eq_exp_minus_1)
  then show ?thesis by (simp only: bit_mask_iff) auto
qed

lemma bit_16777216: "bit (16777216 :: int) n \<longleftrightarrow> n = 24"
proof -
  have "(16777216 :: int) = 2 ^ 24" by simp
  then show ?thesis by (simp only: bit_exp_iff) auto
qed

lemmas bit_consts = bit_65535 bit_32768 bit_m65536 bit_31 bit_16777215 bit_16777216

lemma bit15: "(w3 AND 65535) AND 32768 \<noteq> 0 \<longleftrightarrow> bit w3 15" for w3 :: i32
proof -
  have "(w3 AND 65535) AND 32768 = (if bit w3 15 then 32768 else 0)"
    by (rule bit_word_eqI) (auto simp: bit_simps bit_consts)
  then show ?thesis by simp
qed

lemma alt_raw_scast: "alt_raw w3 = scast (ucast w3 :: 16 word)"
proof (rule bit_word_eqI)
  fix n assume "n < LENGTH(32)"
  then show "bit (alt_raw w3) n = bit (scast (ucast w3 :: 16 word) :: i32) n"
    unfolding alt_raw_def Let_def bit15
    by (cases n "15 :: nat" rule: linorder_cases) (auto simp: bit_simps bit_consts min_def)
qed

lemma sint_alt_raw: "sint (alt_raw w3) = sint (ucast w3 :: 16 word)"
  unfolding alt_raw_scast by (rule sint_up_scast) (simp add: is_up)

lemma alt_raw_bounds: "- 32768 \<le> sint (alt_raw w3)" "sint (alt_raw w3) < 32768"
  using sint_ge [of "ucast w3 :: 16 word"] sint_lt [of "ucast w3 :: 16 word"]
  by (simp_all add: sint_alt_raw)

lemma sint_alt_times: "sint (alt_raw w3 * 25) = sint (alt_raw w3) * 25"
proof -
  have "sint (alt_raw w3 * 25) = signed_take_bit 31 (sint (alt_raw w3) * 25)"
    by (simp add: sint_word_ariths)
  also have "\<dots> = sint (alt_raw w3) * 25"
    using alt_raw_bounds [of w3] by (intro signed_take_bit_int_eq_self) simp_all
  finally show ?thesis .
qed

lemma alt_of_eq: "alt_of w3 = (if sint (alt_raw w3) = - 123 then - 123 else 25 * sint (alt_raw w3))"
proof -
  have "alt_raw w3 = - 123 \<longleftrightarrow> sint (alt_raw w3) = - 123"
    using word_eq_iff_signed [where ?'a = int, of "alt_raw w3" "- 123"] by simp
  then show ?thesis by (simp add: alt_of_def Let_def sint_alt_times)
qed

lemma sint_gs_raw: "sint (gs_raw w3) = sint w3 div 65536"
  by (simp add: gs_raw_def sint_signed_drop_bit_eq drop_bit_eq_div)

lemma gs_of_eq: "gs_of w3 = (if sint (gs_raw w3) = - 1 then None else Some (real_of_int (sint (gs_raw w3)) / 10))"
proof -
  have "gs_raw w3 = - 1 \<longleftrightarrow> sint (gs_raw w3) = - 1"
    using word_eq_iff_signed [where ?'a = int, of "gs_raw w3" "- 1"] by simp
  then show ?thesis by (simp add: gs_of_def Let_def del: of_int_sint)
qed

lemma type_num_eq: "type_num w0 = unat w0 div 2 ^ 27"
proof -
  have "drop_bit 27 w0 AND 31 = drop_bit 27 w0"
    by (rule bit_word_eqI) (auto simp: bit_simps bit_consts dest: bit_imp_le_length)
  then have "type_num w0 = unat (drop_bit 27 w0)" by (simp only: type_num_def)
  also have "\<dots> = unat w0 div 2 ^ 27" by (simp only: unat_drop_bit_eq) (simp only: drop_bit_eq_div)
  finally show ?thesis .
qed

lemma type_num_le: "type_num w0 \<le> 31"
proof -
  have "unat w0 < 2 ^ 32" using unsigned_less [of w0] by simp
  then show ?thesis unfolding type_num_eq by simp
qed

subsection \<open>Evaluating the example files\<close>

lemmas parse_eval =
  parse_binary_file_def try_body_def Let_def fromfile_view_u8 length_view_u8
  find_slices_def upt_conv_Cons sentinel_def frame_body_def getitem_def frame_time_examples
  while_records_step while_records_stop record_body_position record_body_identity
  is_identity_def in_range_iff gate_def round64_examples lookup_flight_def lookup_squawk_def

lemmas field_eval =
  mk_ac_def hex_of_def format_06x_def zero_pad_def hex_digits.simps digit_char_def
  degrees_def alt_of_def alt_raw_def gs_of_def gs_raw_def type_num_def
  squawk_of_def format_04d_def dec_digits.simps

lemma parse_one_position:
  assumes "w0 \<noteq> sentinel"
  shows "parse_binary_file (Content (view_u8 (one_position w0 lat lon w3))) =
     (if in_range lat lon then [mk_ac 1000 None None w0 lat lon w3] else [])"
proof (cases "is_identity lat")
  case True
  with assms show ?thesis
    by (simp add: one_position_def parse_binary_file_def try_body_def Let_def fromfile_view_u8 length_view_u8
  find_slices_def upt_conv_Cons sentinel_def frame_body_def getitem_def frame_time_examples
  while_records_step while_records_stop record_body_identity identity_not_in_range)
next
  case False
  with assms show ?thesis
    by (simp add: one_position_def parse_binary_file_def try_body_def Let_def fromfile_view_u8 length_view_u8
  find_slices_def upt_conv_Cons sentinel_def frame_body_def getitem_def frame_time_examples
  while_records_step while_records_stop record_body_position gate_def lookup_flight_def lookup_squawk_def)
qed




subsection \<open>The words behind an emitted dictionary\<close>

lemma parse_decoded:
  assumes "a \<in> set (parse_binary_file f)"
  obtains bs i now fl sq where "f = Content bs" and "i + 3 < length (fromfile bs)"
    and "\<not> is_identity (fromfile bs ! (i + 1))"
    and "in_range (fromfile bs ! (i + 1)) (fromfile bs ! (i + 2))"
    and "a = mk_ac now fl sq (fromfile bs ! i) (fromfile bs ! (i + 1))
               (fromfile bs ! (i + 2)) (fromfile bs ! (i + 3))"
proof -
  from parse_emitted [OF assms] obtain bs s k where
    "f = Content bs" and "emitted_at (fromfile bs) s k a" by blast
  then show ?thesis
    by (intro that [of bs "s + 4 + 4 * k"]) (simp_all add: emitted_at_iff)
qed

lemma mk_ac_sel [simp]:
  "ac_lat (mk_ac now fl sq w0 lat lon w3) = degrees lat"
  "ac_lon (mk_ac now fl sq w0 lat lon w3) = degrees lon"
  "ac_alt (mk_ac now fl sq w0 lat lon w3) = alt_of w3"
  "ac_gs (mk_ac now fl sq w0 lat lon w3) = gs_of w3"
  "ac_type (mk_ac now fl sq w0 lat lon w3) = type_num w0"
  "ac_flight (mk_ac now fl sq w0 lat lon w3) = fl"
  "ac_squawk (mk_ac now fl sq w0 lat lon w3) = sq"
  by (simp_all add: mk_ac_def)

lemma gs_raw_bounds: "- 32768 \<le> sint (gs_raw w3)" "sint (gs_raw w3) \<le> 32767"
  using sint_ge [of w3] sint_lt [of w3] by (simp_all add: sint_gs_raw)

lemma gs_raw_nonneg: "0 \<le> sint (gs_raw w3) \<longleftrightarrow> 0 \<le> sint w3"
  by (simp add: sint_gs_raw pos_imp_zdiv_nonneg_iff)

lemma parse_emitted_words:
  assumes "a \<in> set (parse_binary_file f)"
  obtains bs s k where "f = Content bs" and "emitted_at (fromfile bs) s k a"
    and "ac_hex a = hex_of (fromfile bs ! (s + 4 + 4 * k))"
    and "ac_type a = type_num (fromfile bs ! (s + 4 + 4 * k))"
    and "ac_alt a = alt_of (fromfile bs ! (s + 4 + 4 * k + 3))"
    and "ac_gs a = gs_of (fromfile bs ! (s + 4 + 4 * k + 3))"
proof -
  from parse_emitted [OF assms] obtain bs s k where
    "f = Content bs" and e: "emitted_at (fromfile bs) s k a" by blast
  then show ?thesis
    by (intro that [of bs s k]) (simp_all add: emitted_at_iff)
qed

subsection \<open>Files that yield nothing\<close>

lemma no_sentinel_no_slices: "sentinel \<notin> set points \<Longrightarrow> find_slices points = []"
proof -
  assume n: "sentinel \<notin> set points"
  have "s \<notin> set (find_slices points)" for s
    using n by (metis find_slices_set nth_mem)
  then show ?thesis by (cases "find_slices points") force+
qed

lemma parse_short:
  assumes "length bs < 16"
  shows "parse_binary_file (Content bs) = []"
proof -
  define points where "points = fromfile bs"
  have len: "length points < 4"
    using assms by (simp add: points_def length_fromfile)
  have w: "while_records points now 4 st = Inr st" for now st
    using len by (simp add: while_records_stop)
  have fs: "find_slices points = [] \<or> find_slices points = [0]"
  proof (cases "length points = 0")
    case True
    then show ?thesis by (simp add: find_slices_def)
  next
    case False
    with len have "length points = 1 \<or> length points = 2 \<or> length points = 3" by arith
    then have "(length points + 3) div 4 = 1" by auto
    then show ?thesis by (simp add: find_slices_def)
  qed
  have "for_slices points (find_slices points)
          \<lparr>acinfo = Map.empty, last_seen = Map.empty, data = []\<rparr> = Inr st \<Longrightarrow> data st = []" for st
    using fs by (auto simp: frame_body_def w split: sum.splits)
  then show ?thesis
    by (auto simp: parse_binary_file_def try_body_def Let_def points_def [symmetric]
        split: sum.splits)
qed

lemma record_body_short: "\<not> i + 2 < length points \<Longrightarrow> record_body points now i st = Inl IndexError"
  by (auto simp: record_body_def getitem_def)

lemma try_truncated:
  assumes "w0 \<noteq> sentinel \<and> w0' \<noteq> sentinel"
  shows "try_body (Content (view_u8 (one_position w0 lat lon w3 @ [w0', lat']))) = Inl IndexError"
proof -
  define points where "points = one_position w0 lat lon w3 @ [w0', lat']"
  have p: "length points = 10" "points ! 0 = sentinel" "points ! 4 = w0" "points ! 8 = w0'"
    by (simp_all add: points_def one_position_def sentinel_def)
  have fs: "find_slices points = [0]"
    using assms by (simp add: points_def one_position_def find_slices_def upt_conv_Cons sentinel_def)
  have r8: "record_body points now 8 st = Inl IndexError" for now st
    by (rule record_body_short) (simp add: p)
  have w8: "while_records points now 8 st = Inl IndexError" for now st
    using assms by (simp add: while_records_step [of 8] p r8)
  have r4: "\<exists>st'. record_body points now 4 st = Inr st'" for now st
    by (cases "is_identity (points ! (4 + 1))")
       (simp_all add: record_body_identity record_body_position p)
  have w4: "while_records points now 4 st = Inl IndexError" for now st
    using assms r4 [of now st] by (auto simp: while_records_step [of 4] p w8)
  have "for_slices points [0] st = Inl IndexError" for st
    by (simp add: frame_body_def getitem_def p w4)
  moreover have "points \<noteq> []" using p(1) by auto
  ultimately show ?thesis
    by (simp add: try_body_def Let_def fromfile_view_u8 length_view_u8 fs
        points_def [symmetric])
qed

subsection \<open>The formatted strings\<close>

lemma digit_value_digit_char: "d < 16 \<Longrightarrow> digit_value (digit_char d) = d"
proof -
  have "list_all (\<lambda>d. digit_value (digit_char d) = d) [0..<16]"
    by (simp add: upt_conv_Cons digit_char_def digit_value_def)
  then show "d < 16 \<Longrightarrow> digit_value (digit_char d) = d"
    by (simp only: list_all_iff) simp
qed

lemma digits_value_snoc: "digits_value b (s @ [c]) = b * digits_value b s + digit_value c"
  by (simp add: digits_value_def)

lemma digits_value_hex: "digits_value 16 (map digit_char (hex_digits n)) = n"
proof (induction n rule: hex_digits.induct)
  case (1 n)
  show ?case
  proof (cases "n < 16")
    case True
    then show ?thesis
      by (subst hex_digits.simps) (simp add: digits_value_def digit_value_digit_char)
  next
    case False
    then show ?thesis
      using "1.IH" by (subst hex_digits.simps) (simp add: digits_value_snoc digit_value_digit_char)
  qed
qed

lemma digits_value_dec: "digits_value 10 (map digit_char (dec_digits n)) = n"
proof (induction n rule: dec_digits.induct)
  case (1 n)
  show ?case
  proof (cases "n < 10")
    case True
    then show ?thesis
      by (subst dec_digits.simps) (simp add: digits_value_def digit_value_digit_char)
  next
    case False
    then show ?thesis
      using "1.IH" by (subst dec_digits.simps) (simp add: digits_value_snoc digit_value_digit_char)
  qed
qed

lemma digits_value_zero_pad: "digits_value b (zero_pad w s) = digits_value b s"
proof -
  have "foldl (\<lambda>acc c. b * acc + digit_value c) 0 (replicate k CHR ''0'') = 0" for k
    by (induction k) (simp_all add: digit_value_def)
  then show ?thesis by (simp add: digits_value_def zero_pad_def)
qed

lemma dec_digits_lt: "d \<in> set (dec_digits n) \<Longrightarrow> d < 10"
proof (induction n rule: dec_digits.induct)
  case (1 n)
  from "1.prems" show ?case
    by (subst (asm) dec_digits.simps) (auto split: if_splits dest: "1.IH")
qed

lemma length_dec_digits_le: "n < 10 ^ Suc k \<Longrightarrow> length (dec_digits n) \<le> Suc k"
proof (induction k arbitrary: n)
  case 0
  then show ?case by (subst dec_digits.simps) simp
next
  case (Suc k)
  have "n div 10 < 10 ^ Suc k" using Suc.prems by (simp add: less_mult_imp_div_less)
  then have "length (dec_digits (n div 10)) \<le> Suc k" by (rule Suc.IH)
  then show ?case by (subst dec_digits.simps) simp
qed

lemma length_dec_digits_ge: "10 ^ k \<le> n \<Longrightarrow> Suc k \<le> length (dec_digits n)"
proof (induction k arbitrary: n)
  case 0
  then show ?case by (subst dec_digits.simps) simp
next
  case (Suc k)
  then have "10 ^ k \<le> n div 10" by (simp add: less_eq_div_iff_mult_less_eq)
  then have "Suc k \<le> length (dec_digits (n div 10))" by (rule Suc.IH)
  moreover have "\<not> n < 10" using Suc.prems
    by (metis le_add1 mult.commute not_less one_le_numeral one_le_power order_trans plus_1_eq_Suc power_Suc mult_le_mono1 mult_1 not_le)
  ultimately show ?case by (subst dec_digits.simps) simp
qed

lemma unat_low16: "unat (w AND 65535) = unat w mod 65536" for w :: i32
proof -
  have "w AND 65535 = take_bit 16 w"
    by (rule bit_word_eqI) (auto simp: bit_simps bit_consts)
  then have "unat (w AND 65535) = unat (take_bit 16 w)" by (simp only:)
  also have "\<dots> = take_bit 16 (unat w)" by (simp only: unsigned_take_bit_eq)
  also have "\<dots> = unat w mod 2 ^ 16" by (simp only: take_bit_eq_mod)
  finally show ?thesis by simp
qed

lemma length_squawk_of:
  "length (squawk_of lat) = (if unat lat mod 65536 < 10000 then 4 else 5)"
proof -
  define v where "v = unat lat mod 65536"
  have v: "v < 65536" by (simp add: v_def)
  show ?thesis
  proof (cases "v < 10000")
    case True
    then have "length (dec_digits v) \<le> 4" using length_dec_digits_le [of v 3] by simp
    with True show ?thesis
      by (simp add: squawk_of_def unat_low16 format_04d_def zero_pad_def v_def [symmetric])
  next
    case False
    then have "5 \<le> length (dec_digits v)" using length_dec_digits_ge [of 4 v] by simp
    moreover have "length (dec_digits v) \<le> 5" using v length_dec_digits_le [of v 4] by simp
    ultimately show ?thesis using False
      by (simp add: squawk_of_def unat_low16 format_04d_def zero_pad_def v_def [symmetric])
  qed
qed

lemma digits_value_squawk_of: "digits_value 10 (squawk_of lat) = unat lat mod 65536"
  by (simp add: squawk_of_def format_04d_def digits_value_zero_pad digits_value_dec unat_low16)

lemma set_squawk_of: "set (squawk_of lat) \<subseteq> set ''0123456789''"
proof -
  have "digit_char d \<in> set ''0123456789''" if "d < 10" for d
  proof -
    have "list_all (\<lambda>d. digit_char d \<in> set ''0123456789'') [0..<10]"
      by (simp add: upt_conv_Cons digit_char_def)
    with that show ?thesis by (simp only: list_all_iff) simp
  qed
  then have "set (map digit_char (dec_digits n)) \<subseteq> set ''0123456789''" for n
    using dec_digits_lt [of _ n] by auto
  then show ?thesis
    unfolding squawk_of_def format_04d_def zero_pad_def by auto
qed

subsection \<open>What a frame keeps and what it resets\<close>

lemma frame_body_reset: "frame_body points s (st\<lparr>acinfo := m\<rparr>) = frame_body points s st"
proof -
  have "(st\<lparr>acinfo := m\<rparr>)\<lparr>acinfo := Map.empty\<rparr> = st\<lparr>acinfo := Map.empty\<rparr>" by simp
  then show ?thesis by (simp only: frame_body_def)
qed

lemma record_body_last_seen_mono:
  assumes "record_body points now i st = Inr st'"
    and "\<exists>t1. last_seen st h = Some t1 \<and> t0 \<le> t1"
  shows "\<exists>t1. last_seen st' h = Some t1 \<and> t0 \<le> t1"
proof -
  have "t \<le> now" if "60 \<le> round64 (now - t)" for t
    using that round64_nonpos [of "now - t"] by linarith
  with record_body_InrD(3) [OF assms(1)] assms(2) show ?thesis
    by (fastforce simp: gate_def)
qed

lemma frame_body_last_seen_mono:
  assumes "frame_body points s st = Inr st'" and "last_seen st h = Some t0"
  shows "\<exists>t1. last_seen st' h = Some t1 \<and> t0 \<le> t1"
  by (rule frame_body_invariant
        [where P = "\<lambda>st. \<exists>t1. last_seen st h = Some t1 \<and> t0 \<le> t1", OF _ _ _ assms(1)])
     (use assms(2) in \<open>auto intro: record_body_last_seen_mono\<close>)

lemma frame_body_data_prefix:
  assumes "frame_body points s st = Inr st'"
  shows "\<exists>new. data st' = data st @ new"
  by (rule frame_body_invariant
        [where P = "\<lambda>st1. \<exists>new. data st1 = data st @ new", OF _ _ _ assms(1)])
     (use record_body_InrD(3) in \<open>fastforce+\<close>)

lemma char_of_BAW123:
  "char_of (66 :: nat) = CHR ''B''" "char_of (65 :: nat) = CHR ''A''"
  "char_of (87 :: nat) = CHR ''W''" "char_of (49 :: nat) = CHR ''1''"
  "char_of (50 :: nat) = CHR ''2''" "char_of (51 :: nat) = CHR ''3''"
  "char_of (32 :: nat) = CHR '' ''"
  by code_simp+

lemma flight_at_example:
  "flight_at next_frame 4 = Some ''BAW123  ''" "flight_at same_frame 4 = Some ''BAW123  ''"
  by (simp_all add: flight_at_def next_frame_def same_frame_def view_u8_def le_bytes_def
      upt_conv_Cons char_of_BAW123)

lemma parse_next_frame:
  "parse_binary_file (Content (view_u8 next_frame)) =
     [mk_ac 2000 None None 703710 47000000 8000000 163840004]"
  by (simp add: next_frame_def parse_eval)

lemma parse_same_frame:
  "parse_binary_file (Content (view_u8 same_frame)) =
     [mk_ac 1000 (flight_at same_frame 4) (Some (squawk_of 1073743624)) 703710 47000000 8000000 163840004]"
  by (simp add: parse_eval same_frame_def flight_at_def)

subsection \<open>Writing a decoded record back\<close>

lemma hex_digits_lt: "d \<in> set (hex_digits n) \<Longrightarrow> d < 16"
proof (induction n rule: hex_digits.induct)
  case (1 n)
  from "1.prems" show ?case
    by (subst (asm) hex_digits.simps) (auto split: if_splits dest: "1.IH")
qed

lemma hex_digits_nonempty: "hex_digits n \<noteq> []"
  by (subst hex_digits.simps) simp

lemma digit_char_not_tilde: "d < 16 \<Longrightarrow> digit_char d \<noteq> CHR ''~''"
proof -
  have "list_all (\<lambda>d. digit_char d \<noteq> CHR ''~'') [0..<16]"
    by (simp add: upt_conv_Cons digit_char_def)
  then show "d < 16 \<Longrightarrow> digit_char d \<noteq> CHR ''~''"
    by (simp only: list_all_iff) simp
qed

lemma format_06x_no_tilde: "format_06x n \<noteq> [] \<and> hd (format_06x n) \<noteq> CHR ''~''"
proof -
  have ne: "format_06x n \<noteq> []"
    by (simp add: format_06x_def zero_pad_def hex_digits_nonempty)
  have "c \<noteq> CHR ''~''" if "c \<in> set (map digit_char (hex_digits n))" for c
    using that hex_digits_lt [of _ n] digit_char_not_tilde by auto
  then have "c \<noteq> CHR ''~''" if "c \<in> set (format_06x n)" for c
    using that by (auto simp: format_06x_def zero_pad_def)
  with ne show ?thesis using hd_in_set [OF ne] by blast
qed

lemma digits_value_format_06x: "digits_value 16 (format_06x n) = n"
  by (simp add: format_06x_def digits_value_zero_pad digits_value_hex)

lemma bit_16777216_word: "bit (16777216 :: i32) n \<longleftrightarrow> n = 24"
proof -
  have "(16777216 :: i32) = 2 ^ 24" by simp
  then show ?thesis by (simp only: bit_exp_iff) (auto simp: possible_bit_word)
qed

lemma drop27_and31: "drop_bit 27 w0 AND 31 = drop_bit 27 w0" for w0 :: i32
  by (rule bit_word_eqI) (auto simp: bit_simps bit_consts dest: bit_imp_le_length)

lemma bit24: "w0 AND push_bit 24 1 \<noteq> 0 \<longleftrightarrow> bit w0 24" for w0 :: i32
proof -
  have "w0 AND push_bit 24 1 = (if bit w0 24 then push_bit 24 1 else 0)"
    by (rule bit_word_eqI) (auto simp: bit_and_iff bit_16777216_word bit_consts)
  then show ?thesis by simp
qed

lemma rebuild_w0:
  fixes w0 :: i32
  assumes "\<not> bit w0 25" "\<not> bit w0 26"
  shows "(w0 AND 16777215) OR (if bit w0 24 then push_bit 24 1 else 0) OR
         push_bit 27 (drop_bit 27 w0 AND 31) = w0"
proof (rule bit_word_eqI)
  fix n assume n: "n < LENGTH(32)"
  consider "n < 24" | "n = 24" | "n = 25" | "n = 26" | "27 \<le> n" by linarith
  then show "bit ((w0 AND 16777215) OR (if bit w0 24 then push_bit 24 1 else 0) OR
         push_bit 27 (drop_bit 27 w0 AND 31)) n = bit w0 n"
    using assms n unfolding drop27_and31
    by cases (auto simp: bit_or_iff bit_and_iff bit_push_bit_iff bit_drop_bit_eq
        bit_16777216_word bit_consts)
qed

lemma rebuild_w3: "push_bit 16 (gs_raw w3) OR (alt_raw w3 AND 65535) = w3"
proof (rule bit_word_eqI)
  fix n assume n: "n < LENGTH(32)"
  show "bit (push_bit 16 (gs_raw w3) OR (alt_raw w3 AND 65535)) n = bit w3 n"
    using n by (cases "n < 16") (auto simp: gs_raw_def alt_raw_scast bit_simps bit_consts)
qed

lemma le_bytes_fromfile:
  "j < length (fromfile bs) \<Longrightarrow> le_bytes (fromfile bs ! j) = take 4 (drop (4 * j) bs)"
proof (induction bs arbitrary: j rule: fromfile.induct)
  case (1 b0 b1 b2 b3 bs)
  show ?case
  proof (cases j)
    case 0
    then show ?thesis by (simp add: le_bytes_le32)
  next
    case (Suc j')
    with "1.prems" have "j' < length (fromfile bs)" by simp
    then have "le_bytes (fromfile bs ! j') = take 4 (drop (4 * j') bs)" by (rule "1.IH")
    with Suc show ?thesis by (simp add: drop_Cons')
  qed
qed simp_all

lemma record_bytes:
  assumes "i + 3 < length (fromfile bs)"
  shows "take 16 (drop (4 * i) bs) =
     le_bytes (fromfile bs ! i) @ le_bytes (fromfile bs ! (i + 1)) @
     le_bytes (fromfile bs ! (i + 2)) @ le_bytes (fromfile bs ! (i + 3))"
proof -
  have t: "take 16 xs = take 4 xs @ take 4 (drop 4 xs) @ take 4 (drop 8 xs) @ take 4 (drop 12 xs)"
    for xs :: "u8 list"
    using take_add [of 4 12 xs] take_add [of 4 8 "drop 4 xs"] take_add [of 4 4 "drop 8 xs"]
    by (simp add: add.commute)
  have "le_bytes (fromfile bs ! i) = take 4 (drop (4 * i) bs)"
    "le_bytes (fromfile bs ! (i + 1)) = take 4 (drop 4 (drop (4 * i) bs))"
    "le_bytes (fromfile bs ! (i + 2)) = take 4 (drop 8 (drop (4 * i) bs))"
    "le_bytes (fromfile bs ! (i + 3)) = take 4 (drop 12 (drop (4 * i) bs))"
    using assms by (simp_all add: le_bytes_fromfile add.commute)
  then show ?thesis by (simp only: t [of "drop (4 * i) bs"])
qed

lemma encode_decoded:
  assumes "\<not> bit w0 25" "\<not> bit w0 26"
  shows "encode_record (hex_of w0, type_num w0, lat, lon, alt_raw w3, gs_raw w3) =
     le_bytes w0 @ le_bytes lat @ le_bytes lon @ le_bytes w3"
proof -
  define h where "h = format_06x (unat (w0 AND 16777215))"
  have h: "h \<noteq> []" "hd h \<noteq> CHR ''~''" "digits_value 16 h = unat (w0 AND 16777215)"
    using format_06x_no_tilde [of "unat (w0 AND 16777215)"]
    by (simp_all add: h_def digits_value_format_06x)
  have hex: "hex_of w0 = (if bit w0 24 then CHR ''~'' # h else h)"
    by (simp only: hex_of_def Let_def bit24 h_def)
  have tilde: "(hex_of w0 \<noteq> [] \<and> hd (hex_of w0) = CHR ''~'') \<longleftrightarrow> bit w0 24"
    using h by (simp add: hex)
  have addr: "digits_value 16 (if bit w0 24 then tl (hex_of w0) else hex_of w0) =
      unat (w0 AND 16777215)"
    using h by (simp add: hex)
  have ty: "(word_of_nat (type_num w0) :: i32) = drop_bit 27 w0 AND 31"
    by (simp add: type_num_def)
  have "(word_of_nat (unat (w0 AND 16777215)) :: i32) OR (if bit w0 24 then push_bit 24 1 else 0) OR
      push_bit 27 (word_of_nat (type_num w0)) = w0"
    using rebuild_w0 [OF assms] by (simp only: ty of_nat_unat ucast_id)
  then show ?thesis
    by (simp only: encode_record_def prod.case Let_def tilde addr rebuild_w3)
qed

section \<open>The claims\<close>




text \<open>
  Claim C3. Every emitted record has its latitude strictly between -90 and 90 and its
  longitude strictly between -180 and 180, both being the raw signed words of its record
  divided by 1 000 000. A position with \<open>lat_raw = 90 000 000\<close> fails the range test and is
  not emitted; one with \<open>lat_raw = 89 999 999\<close> passes it when the longitude is in range,
  and is emitted when it is the only record of the file.
\<close>

theorem coordinates_strict:
  "(a \<in> set (parse_binary_file f) \<longrightarrow>
      - 90 < ac_lat a \<and> ac_lat a < 90 \<and> - 180 < ac_lon a \<and> ac_lon a < 180 \<and>
      (\<exists>bs i. f = Content bs \<and> i + 3 < length (fromfile bs) \<and>
         ac_lat a = real_of_int (sint (fromfile bs ! (i + 1))) / 1000000 \<and>
         ac_lon a = real_of_int (sint (fromfile bs ! (i + 2))) / 1000000)) \<and>
   \<not> in_range 90000000 lon \<and>
   (in_range 89999999 lon \<longleftrightarrow> - 180 < degrees lon \<and> degrees lon < 180) \<and>
   (w0 \<noteq> sentinel \<longrightarrow>
      parse_binary_file (Content (view_u8 (one_position w0 90000000 lon w3))) = []) \<and>
   (w0 \<noteq> sentinel \<and> - 180 < degrees lon \<and> degrees lon < 180 \<longrightarrow>
      parse_binary_file (Content (view_u8 (one_position w0 89999999 lon w3))) =
        [mk_ac 1000 None None w0 89999999 lon w3])"
proof (intro conjI impI)
  assume a: "a \<in> set (parse_binary_file f)"
  then obtain bs i now fl sq where d: "f = Content bs" "i + 3 < length (fromfile bs)"
    "in_range (fromfile bs ! (i + 1)) (fromfile bs ! (i + 2))"
    "a = mk_ac now fl sq (fromfile bs ! i) (fromfile bs ! (i + 1))
               (fromfile bs ! (i + 2)) (fromfile bs ! (i + 3))"
    by (rule parse_decoded)
  from d(3,4) show "- 90 < ac_lat a" "ac_lat a < 90" "- 180 < ac_lon a" "ac_lon a < 180"
    by (simp_all add: in_range_def)
  from d show "\<exists>bs i. f = Content bs \<and> i + 3 < length (fromfile bs) \<and>
         ac_lat a = real_of_int (sint (fromfile bs ! (i + 1))) / 1000000 \<and>
         ac_lon a = real_of_int (sint (fromfile bs ! (i + 2))) / 1000000"
    by (auto simp: degrees_def simp del: of_int_sint)
next
  show "\<not> in_range 90000000 lon" by (simp add: in_range_def degrees_def)
next
  show "in_range 89999999 lon \<longleftrightarrow> - 180 < degrees lon \<and> degrees lon < 180"
    by (simp add: in_range_def) (simp add: degrees_def)
next
  assume "w0 \<noteq> sentinel"
  then show "parse_binary_file (Content (view_u8 (one_position w0 90000000 lon w3))) = []"
    by (simp add: parse_one_position in_range_iff)
next
  assume "w0 \<noteq> sentinel \<and> - 180 < degrees lon \<and> degrees lon < 180"
  then show "parse_binary_file (Content (view_u8 (one_position w0 89999999 lon w3))) =
        [mk_ac 1000 None None w0 89999999 lon w3]"
    by (simp add: parse_one_position in_range_def) (simp add: degrees_def)
qed

theorem coordinates_strict_witness:
  "mk_ac 1000 None None 703710 89999999 8000000 163840004 \<in>
     set (parse_binary_file (Content (view_u8 (one_position 703710 89999999 8000000 163840004)))) \<and>
   ac_lat (mk_ac 1000 None None 703710 89999999 8000000 163840004) = 89.999999 \<and>
   ac_lat (mk_ac 1000 None None 703710 89999999 8000000 163840004) < 90 \<and>
   (703710 :: i32) \<noteq> sentinel \<and> - 180 < degrees 8000000 \<and> degrees 8000000 < 180 \<and>
   parse_binary_file (Content (view_u8 (one_position 703710 90000000 8000000 163840004))) = []"
proof -
  have h: "(703710 :: i32) \<noteq> sentinel \<and> - 180 < degrees 8000000 \<and> degrees 8000000 < 180"
    by (simp add: sentinel_def degrees_def)
  from coordinates_strict [of "mk_ac 1000 None None 703710 89999999 8000000 163840004"
      "Content (view_u8 (one_position 703710 89999999 8000000 163840004))" 8000000 703710 163840004] h
  show ?thesis
    by (simp add: degrees_def)
qed

text \<open>
  Claim C4. Every emitted record is record \<open>k\<close> of a frame \<open>s\<close> of the file, and its altitude
  comes from the low 16 bits of the fourth word of that record, the word
  \<open>s + 4 + 4 * k + 3\<close> of the file: the low half is sign-extended from bit 15 (by an OR with
  \<open>0xFFFF0000\<close> when bit 15 is set), the value -123 is kept as it is and every other
  value is multiplied by 25. So an emitted altitude is -123 or a multiple of 25, and a raw
  altitude of -123 gives -123, not -3075: a file of one position with that raw altitude
  yields one record, of altitude -123.
\<close>

theorem altitude_decoding:
  "(a \<in> set (parse_binary_file f) \<longrightarrow>
      (\<exists>bs s k w3. f = Content bs \<and> emitted_at (fromfile bs) s k a \<and>
         w3 = fromfile bs ! (s + 4 + 4 * k + 3) \<and>
         ac_alt a = alt_of w3 \<and>
         ac_alt a = (if sint (alt_raw w3) = - 123 then - 123 else 25 * sint (alt_raw w3)) \<and>
         sint (alt_raw w3) = sint (ucast w3 :: 16 word)) \<and>
      (ac_alt a = - 123 \<or> 25 dvd ac_alt a)) \<and>
   alt_raw w3 = (if bit w3 15 then (w3 AND 65535) OR 4294901760 else w3 AND 65535) \<and>
   sint (alt_raw w3) = sint (ucast w3 :: 16 word) \<and>
   alt_of w3 = (if sint (alt_raw w3) = - 123 then - 123 else 25 * sint (alt_raw w3)) \<and>
   (sint (alt_raw w3) = - 123 \<longrightarrow> alt_of w3 = - 123 \<and> alt_of w3 \<noteq> - 3075) \<and>
   (w0 \<noteq> sentinel \<and> in_range lat lon \<and> sint (alt_raw w3) = - 123 \<longrightarrow>
      map ac_alt (parse_binary_file (Content (view_u8 (one_position w0 lat lon w3)))) = [- 123])"
proof (intro conjI impI)
  assume a: "a \<in> set (parse_binary_file f)"
  then obtain bs s k where d: "f = Content bs" "emitted_at (fromfile bs) s k a"
    "ac_alt a = alt_of (fromfile bs ! (s + 4 + 4 * k + 3))"
    by (rule parse_emitted_words)
  from d(3) show "ac_alt a = - 123 \<or> 25 dvd ac_alt a"
    by (simp add: alt_of_eq)
  from d show "\<exists>bs s k w3. f = Content bs \<and> emitted_at (fromfile bs) s k a \<and>
         w3 = fromfile bs ! (s + 4 + 4 * k + 3) \<and>
         ac_alt a = alt_of w3 \<and>
         ac_alt a = (if sint (alt_raw w3) = - 123 then - 123 else 25 * sint (alt_raw w3)) \<and>
         sint (alt_raw w3) = sint (ucast w3 :: 16 word)"
    by (intro exI [of _ bs] exI [of _ s] exI [of _ k]
        exI [of _ "fromfile bs ! (s + 4 + 4 * k + 3)"])
      (simp add: alt_of_eq sint_alt_raw)
next
  have "(4294901760 :: i32) = - 65536" by simp
  then show "alt_raw w3 = (if bit w3 15 then (w3 AND 65535) OR 4294901760 else w3 AND 65535)"
    by (simp only: alt_raw_def Let_def bit15)
next
  show "sint (alt_raw w3) = sint (ucast w3 :: 16 word)" by (rule sint_alt_raw)
next
  show "alt_of w3 = (if sint (alt_raw w3) = - 123 then - 123 else 25 * sint (alt_raw w3))"
    by (rule alt_of_eq)
next
  assume "sint (alt_raw w3) = - 123"
  then show "alt_of w3 = - 123" "alt_of w3 \<noteq> - 3075" by (simp_all add: alt_of_eq)
next
  assume "w0 \<noteq> sentinel \<and> in_range lat lon \<and> sint (alt_raw w3) = - 123"
  then show "map ac_alt (parse_binary_file (Content (view_u8 (one_position w0 lat lon w3)))) = [- 123]"
    by (simp add: parse_one_position alt_of_eq)
qed

theorem altitude_decoding_witness:
  "mk_ac 1000 None None 703710 47000000 8000000 163905413 \<in>
     set (parse_binary_file (Content (view_u8 (one_position 703710 47000000 8000000 163905413)))) \<and>
   (\<exists>bs s k. Content (view_u8 (one_position 703710 47000000 8000000 163905413)) = Content bs \<and>
      emitted_at (fromfile bs) s k (mk_ac 1000 None None 703710 47000000 8000000 163905413)) \<and>
   (703710 :: i32) \<noteq> sentinel \<and> in_range 47000000 8000000 \<and>
   sint (alt_raw 163905413) = - 123 \<and>
   ac_alt (mk_ac 1000 None None 703710 47000000 8000000 163905413) = - 123 \<and>
   map ac_alt (parse_binary_file
      (Content (view_u8 (one_position 703710 47000000 8000000 163905413)))) = [- 123]"
proof -
  have m: "mk_ac 1000 None None 703710 47000000 8000000 163905413 \<in>
     set (parse_binary_file (Content (view_u8 (one_position 703710 47000000 8000000 163905413))))"
    by (simp add: parse_one_position sentinel_def in_range_iff)
  have r: "(703710 :: i32) \<noteq> sentinel \<and> in_range 47000000 8000000 \<and>
      sint (alt_raw 163905413) = - 123"
    by (simp add: alt_raw_def sentinel_def in_range_iff)
  from altitude_decoding [of "mk_ac 1000 None None 703710 47000000 8000000 163905413"
      "Content (view_u8 (one_position 703710 47000000 8000000 163905413))" 163905413
      703710 47000000 8000000] m r
  show ?thesis by simp metis
qed

text \<open>
  Claim C5 says that every emitted ground speed is absent or non-negative. A speed half of
  \<open>0xFFFE\<close> is the raw speed -2, which is not the value -1 that means absent, and the
  record is emitted with the speed -0.2.
\<close>

theorem ground_speed_counterexample:
  "map ac_gs (parse_binary_file
      (Content (view_u8 (one_position 703710 47000000 8000000 4294836228)))) = [Some (- 0.2)] \<and>
   \<not> (0 :: real) \<le> - 0.2"
  by (simp add: parse_one_position sentinel_def in_range_iff gs_of_def gs_raw_def)

text \<open>
  Claim C5, amended. Every emitted record is record \<open>k\<close> of a frame \<open>s\<close> of the file, and
  its raw ground speed is the arithmetic shift by 16 of the signed fourth word of that record
  (the word \<open>s + 4 + 4 * k + 3\<close> of the file), that is the word divided by 65536 and rounded
  down; the speed is absent iff the raw speed is -1 and is the raw speed divided by 10
  otherwise; it lies between -3276.8 and 3276.7, and it is non-negative exactly when the
  fourth word is non-negative as a signed number.
\<close>

theorem ground_speed_decoding:
  "(a \<in> set (parse_binary_file f) \<longrightarrow>
      (\<exists>bs s k w3. f = Content bs \<and> emitted_at (fromfile bs) s k a \<and>
         w3 = fromfile bs ! (s + 4 + 4 * k + 3) \<and>
         ac_gs a = gs_of w3 \<and>
         (ac_gs a = None \<longleftrightarrow> sint w3 div 2 ^ 16 = - 1) \<and>
         (sint w3 div 2 ^ 16 \<noteq> - 1 \<longrightarrow>
            ac_gs a = Some (real_of_int (sint w3 div 2 ^ 16) / 10)) \<and>
         (\<forall>g. ac_gs a = Some g \<longrightarrow> (0 \<le> g \<longleftrightarrow> 0 \<le> sint w3))) \<and>
      (case ac_gs a of None \<Rightarrow> True | Some g \<Rightarrow> - 3276.8 \<le> g \<and> g \<le> 3276.7)) \<and>
   sint (gs_raw w3) = sint w3 div 2 ^ 16 \<and>
   (gs_of w3 = None \<longleftrightarrow> sint (gs_raw w3) = - 1) \<and>
   (sint (gs_raw w3) \<noteq> - 1 \<longrightarrow> gs_of w3 = Some (real_of_int (sint (gs_raw w3)) / 10)) \<and>
   (gs_of w3 = Some g \<longrightarrow> (0 \<le> g \<longleftrightarrow> 0 \<le> sint w3))"
proof (intro conjI impI)
  have sign: "0 \<le> g \<longleftrightarrow> 0 \<le> sint w" if "gs_of w = Some g" for w g
  proof -
    from that have "g = real_of_int (sint (gs_raw w)) / 10"
      by (simp add: gs_of_eq del: of_int_sint split: if_splits)
    then have "0 \<le> g \<longleftrightarrow> 0 \<le> real_of_int (sint (gs_raw w))"
      by (simp only: zero_le_divide_iff) simp
    then have "0 \<le> g \<longleftrightarrow> 0 \<le> sint (gs_raw w)" by (simp only: of_int_0_le_iff)
    then show ?thesis by (simp only: gs_raw_nonneg)
  qed
  have bounds: "case gs_of w of None \<Rightarrow> True | Some g \<Rightarrow> - 3276.8 \<le> g \<and> g \<le> 3276.7" for w
  proof -
    have "- 32768 \<le> real_of_int (sint (gs_raw w))" "real_of_int (sint (gs_raw w)) \<le> 32767"
      using gs_raw_bounds [of w] by linarith+
    then show ?thesis by (simp add: gs_of_eq del: of_int_sint)
  qed
  have own: "gs_of w = None \<longleftrightarrow> sint w div 2 ^ 16 = - 1"
    "sint w div 2 ^ 16 \<noteq> - 1 \<longrightarrow> gs_of w = Some (real_of_int (sint w div 2 ^ 16) / 10)" for w
    using sint_gs_raw [of w] by (simp_all add: gs_of_eq del: of_int_sint)
  {
    assume a: "a \<in> set (parse_binary_file f)"
    then obtain bs s k where d: "f = Content bs" "emitted_at (fromfile bs) s k a"
      "ac_gs a = gs_of (fromfile bs ! (s + 4 + 4 * k + 3))"
      by (rule parse_emitted_words)
    let ?w = "fromfile bs ! (s + 4 + 4 * k + 3)"
    have "\<forall>g. gs_of ?w = Some g \<longrightarrow> (0 \<le> g \<longleftrightarrow> 0 \<le> sint ?w)"
      using sign [of ?w] by blast
    with d own [of ?w]
    have "f = Content bs \<and> emitted_at (fromfile bs) s k a \<and>
         ?w = fromfile bs ! (s + 4 + 4 * k + 3) \<and>
         ac_gs a = gs_of ?w \<and>
         (ac_gs a = None \<longleftrightarrow> sint ?w div 2 ^ 16 = - 1) \<and>
         (sint ?w div 2 ^ 16 \<noteq> - 1 \<longrightarrow>
            ac_gs a = Some (real_of_int (sint ?w div 2 ^ 16) / 10)) \<and>
         (\<forall>g. ac_gs a = Some g \<longrightarrow> (0 \<le> g \<longleftrightarrow> 0 \<le> sint ?w))"
      by simp
    then show "\<exists>bs s k w3. f = Content bs \<and> emitted_at (fromfile bs) s k a \<and>
         w3 = fromfile bs ! (s + 4 + 4 * k + 3) \<and>
         ac_gs a = gs_of w3 \<and>
         (ac_gs a = None \<longleftrightarrow> sint w3 div 2 ^ 16 = - 1) \<and>
         (sint w3 div 2 ^ 16 \<noteq> - 1 \<longrightarrow>
            ac_gs a = Some (real_of_int (sint w3 div 2 ^ 16) / 10)) \<and>
         (\<forall>g. ac_gs a = Some g \<longrightarrow> (0 \<le> g \<longleftrightarrow> 0 \<le> sint w3))"
      by (intro exI [of _ bs] exI [of _ s] exI [of _ k]
        exI [of _ "fromfile bs ! (s + 4 + 4 * k + 3)"])
    from d(3) bounds [of "fromfile bs ! (s + 4 + 4 * k + 3)"]
    show "case ac_gs a of None \<Rightarrow> True | Some g \<Rightarrow> - 3276.8 \<le> g \<and> g \<le> 3276.7"
      by simp
  }
  show "sint (gs_raw w3) = sint w3 div 2 ^ 16" by (simp add: sint_gs_raw)
  show "gs_of w3 = None \<longleftrightarrow> sint (gs_raw w3) = - 1" by (simp add: gs_of_eq)
  {
    assume "sint (gs_raw w3) \<noteq> - 1"
    then show "gs_of w3 = Some (real_of_int (sint (gs_raw w3)) / 10)" by (simp add: gs_of_eq)
  }
  {
    assume "gs_of w3 = Some g"
    then show "0 \<le> g \<longleftrightarrow> 0 \<le> sint w3" by (rule sign)
  }
qed

theorem ground_speed_decoding_witness:
  "mk_ac 1000 None None 703710 47000000 8000000 163840004 \<in>
     set (parse_binary_file (Content (view_u8 (one_position 703710 47000000 8000000 163840004)))) \<and>
   (\<exists>bs s k. Content (view_u8 (one_position 703710 47000000 8000000 163840004)) = Content bs \<and>
      emitted_at (fromfile bs) s k (mk_ac 1000 None None 703710 47000000 8000000 163840004)) \<and>
   ac_gs (mk_ac 1000 None None 703710 47000000 8000000 163840004) = Some 250 \<and>
   sint (gs_raw 163840004) \<noteq> - 1 \<and> gs_of 163840004 = Some 250 \<and>
   (0 :: real) \<le> 250 \<and> 0 \<le> sint (163840004 :: i32)"
proof -
  have m: "mk_ac 1000 None None 703710 47000000 8000000 163840004 \<in>
     set (parse_binary_file (Content (view_u8 (one_position 703710 47000000 8000000 163840004))))"
    by (simp add: parse_one_position sentinel_def in_range_iff)
  have g: "gs_of 163840004 = Some 250" and r: "sint (gs_raw 163840004) \<noteq> - 1"
    by (simp_all add: gs_of_def gs_raw_def)
  from ground_speed_decoding [of "mk_ac 1000 None None 703710 47000000 8000000 163840004"
      "Content (view_u8 (one_position 703710 47000000 8000000 163840004))" 163840004 250] m g r
  show ?thesis by simp metis
qed

text \<open>
  Claim C6 says that the stored type lies between 0 and 12. The five type bits are stored as
  they are: a first word whose top five bits are all set is emitted with the type 31.
\<close>

theorem type_field_counterexample:
  "map ac_type (parse_binary_file
      (Content (view_u8 (one_position 4161453278 47000000 8000000 163840004)))) = [31] \<and>
   \<not> (31 :: nat) \<le> 12"
  by (simp add: parse_one_position sentinel_def in_range_iff type_num_def)

text \<open>
  Claim C6, amended. Every emitted record is record \<open>k\<close> of a frame \<open>s\<close> of the file, and
  its type is the five-bit field in bits 27 to 31 of the first word of that record (the word
  \<open>s + 4 + 4 * k\<close> of the file, which also gives the record its hex), read unsigned (the
  word divided by \<open>2 ^ 27\<close>); this value lies between 0 and 31.
\<close>

theorem type_field:
  "(a \<in> set (parse_binary_file f) \<longrightarrow>
      ac_type a \<le> 31 \<and>
      (\<exists>bs s k w0. f = Content bs \<and> emitted_at (fromfile bs) s k a \<and>
         w0 = fromfile bs ! (s + 4 + 4 * k) \<and>
         ac_hex a = hex_of w0 \<and>
         ac_type a = type_num w0 \<and>
         ac_type a = unat w0 div 2 ^ 27)) \<and>
   type_num w0 = unat w0 div 2 ^ 27 \<and>
   type_num w0 \<le> 31"
proof (intro conjI impI)
  assume a: "a \<in> set (parse_binary_file f)"
  then obtain bs s k where d: "f = Content bs" "emitted_at (fromfile bs) s k a"
    "ac_hex a = hex_of (fromfile bs ! (s + 4 + 4 * k))"
    "ac_type a = type_num (fromfile bs ! (s + 4 + 4 * k))"
    by (rule parse_emitted_words)
  from d(4) show "ac_type a \<le> 31" by (simp add: type_num_le)
  from d show "\<exists>bs s k w0. f = Content bs \<and> emitted_at (fromfile bs) s k a \<and>
         w0 = fromfile bs ! (s + 4 + 4 * k) \<and>
         ac_hex a = hex_of w0 \<and>
         ac_type a = type_num w0 \<and>
         ac_type a = unat w0 div 2 ^ 27"
    by (intro exI [of _ bs] exI [of _ s] exI [of _ k]
        exI [of _ "fromfile bs ! (s + 4 + 4 * k)"])
      (simp add: type_num_eq)
next
  show "type_num w0 = unat w0 div 2 ^ 27" by (rule type_num_eq)
next
  show "type_num w0 \<le> 31" by (rule type_num_le)
qed

theorem type_field_witness:
  "mk_ac 1000 None None 1745534174 47000000 8000000 163840004 \<in>
     set (parse_binary_file (Content (view_u8 (one_position 1745534174 47000000 8000000 163840004)))) \<and>
   (\<exists>bs s k. Content (view_u8 (one_position 1745534174 47000000 8000000 163840004)) = Content bs \<and>
      emitted_at (fromfile bs) s k (mk_ac 1000 None None 1745534174 47000000 8000000 163840004)) \<and>
   ac_type (mk_ac 1000 None None 1745534174 47000000 8000000 163840004) = 13 \<and>
   type_num 1745534174 = unat (1745534174 :: i32) div 2 ^ 27"
proof -
  have m: "mk_ac 1000 None None 1745534174 47000000 8000000 163840004 \<in>
     set (parse_binary_file (Content (view_u8 (one_position 1745534174 47000000 8000000 163840004))))"
    by (simp add: parse_one_position sentinel_def in_range_iff)
  from type_field [of "mk_ac 1000 None None 1745534174 47000000 8000000 163840004"
      "Content (view_u8 (one_position 1745534174 47000000 8000000 163840004))" 1745534174] m
  show ?thesis by (simp add: type_num_def) metis
qed

text \<open>
  Claim C10. \<^verbatim>\<open>last_seen\<close> changes only when a record is emitted. A record that raises
  nothing and is an identity record, or fails the range test, or fails the 60-second gate,
  leaves \<^verbatim>\<open>last_seen\<close> and the emitted list as they were; when \<^verbatim>\<open>last_seen\<close> has
  changed, the list has grown by one record. So after a position that is out of range, the
  next position of that hex, in range, is emitted whenever the gate lets it through judged by
  the entry from before the out-of-range position.
\<close>

theorem last_seen_frame:
  "(record_body points now i st = Inr st' \<and>
    (is_identity (points ! (i + 1)) \<or>
     \<not> in_range (points ! (i + 1)) (points ! (i + 2)) \<or>
     \<not> (case last_seen st (hex_of (points ! i)) of None \<Rightarrow> True | Some t0 \<Rightarrow> 60 \<le> round64 (now - t0)))
    \<longrightarrow> last_seen st' = last_seen st \<and> data st' = data st) \<and>
   (record_body points now i st = Inr st' \<and> last_seen st' \<noteq> last_seen st
    \<longrightarrow> length (data st') = Suc (length (data st))) \<and>
   (record_body points now i st = Inr st' \<and>
    \<not> is_identity (points ! (i + 1)) \<and> \<not> in_range (points ! (i + 1)) (points ! (i + 2)) \<and>
    i + 7 < length points \<and> \<not> is_identity (points ! (i + 5)) \<and>
    in_range (points ! (i + 5)) (points ! (i + 6)) \<and>
    (case last_seen st (hex_of (points ! (i + 4))) of None \<Rightarrow> True | Some t0 \<Rightarrow> 60 \<le> round64 (now' - t0))
    \<longrightarrow> (\<exists>st''. record_body points now' (i + 4) st' = Inr st'' \<and>
           length (data st'') = Suc (length (data st)) \<and>
           ac_t (last (data st'')) = now' \<and>
           ac_hex (last (data st'')) = hex_of (points ! (i + 4))))"
proof (intro conjI impI)
  assume h: "record_body points now i st = Inr st' \<and>
    (is_identity (points ! (i + 1)) \<or>
     \<not> in_range (points ! (i + 1)) (points ! (i + 2)) \<or>
     \<not> (case last_seen st (hex_of (points ! i)) of None \<Rightarrow> True | Some t0 \<Rightarrow> 60 \<le> round64 (now - t0)))"
  with record_body_InrD(3) [of points now i st st']
  show "last_seen st' = last_seen st" "data st' = data st"
    by (auto simp: gate_def)
next
  assume "record_body points now i st = Inr st' \<and> last_seen st' \<noteq> last_seen st"
  with record_body_InrD(3) [of points now i st st']
  show "length (data st') = Suc (length (data st))" by auto
next
  assume h: "record_body points now i st = Inr st' \<and>
    \<not> is_identity (points ! (i + 1)) \<and> \<not> in_range (points ! (i + 1)) (points ! (i + 2)) \<and>
    i + 7 < length points \<and> \<not> is_identity (points ! (i + 5)) \<and>
    in_range (points ! (i + 5)) (points ! (i + 6)) \<and>
    (case last_seen st (hex_of (points ! (i + 4))) of None \<Rightarrow> True | Some t0 \<Rightarrow> 60 \<le> round64 (now' - t0))"
  with record_body_InrD(3) [of points now i st st']
  have same: "last_seen st' = last_seen st" "data st' = data st" by auto
  have "i + 4 + 3 < length points" "\<not> is_identity (points ! (i + 4 + 1))"
    "in_range (points ! (i + 4 + 1)) (points ! (i + 4 + 2))"
  proof -
    have e: "i + 4 + 1 = i + 5" "i + 4 + 2 = i + 6" "i + 4 + 3 = i + 7" by simp_all
    from h show "i + 4 + 3 < length points" "\<not> is_identity (points ! (i + 4 + 1))"
      "in_range (points ! (i + 4 + 1)) (points ! (i + 4 + 2))"
      unfolding e by blast+
  qed
  then have "record_body points now' (i + 4) st' =
      Inr (if gate (last_seen st') (hex_of (points ! (i + 4))) now'
         then st'\<lparr>last_seen := (last_seen st')(hex_of (points ! (i + 4)) \<mapsto> now'),
                 data := data st' @ [mk_ac now' (lookup_flight (acinfo st') (hex_of (points ! (i + 4))))
                     (lookup_squawk (acinfo st') (hex_of (points ! (i + 4))))
                     (points ! (i + 4)) (points ! (i + 4 + 1)) (points ! (i + 4 + 2)) (points ! (i + 4 + 3))]\<rparr>
         else st')"
    by (simp only: record_body_position simp_thms if_True)
  moreover have "gate (last_seen st') (hex_of (points ! (i + 4))) now'"
    using h same by (simp add: gate_def)
  ultimately show "\<exists>st''. record_body points now' (i + 4) st' = Inr st'' \<and>
           length (data st'') = Suc (length (data st)) \<and>
           ac_t (last (data st'')) = now' \<and>
           ac_hex (last (data st'')) = hex_of (points ! (i + 4))"
    using same by simp
qed

theorem last_seen_frame_witness:
  "record_body out_then_in 1000 4
      \<lparr>acinfo = Map.empty, last_seen = [hex_of 703710 \<mapsto> 900], data = []\<rparr> =
     Inr \<lparr>acinfo = Map.empty, last_seen = [hex_of 703710 \<mapsto> 900], data = []\<rparr> \<and>
   \<not> is_identity (out_then_in ! (4 + 1)) \<and>
   \<not> in_range (out_then_in ! (4 + 1)) (out_then_in ! (4 + 2)) \<and>
   4 + 7 < length out_then_in \<and> \<not> is_identity (out_then_in ! (4 + 5)) \<and>
   in_range (out_then_in ! (4 + 5)) (out_then_in ! (4 + 6)) \<and>
   (\<exists>st''. record_body out_then_in 1000 (4 + 4)
        \<lparr>acinfo = Map.empty, last_seen = [hex_of 703710 \<mapsto> 900], data = []\<rparr> = Inr st'' \<and>
      length (data st'') = Suc 0 \<and> ac_t (last (data st'')) = 1000 \<and>
      ac_hex (last (data st'')) = hex_of 703710) \<and>
   parse_binary_file (Content (view_u8 out_then_in)) =
     [mk_ac 1000 None None 703710 47000000 8000000 163840004]"
proof -
  have b: "record_body out_then_in 1000 4
      \<lparr>acinfo = Map.empty, last_seen = [hex_of 703710 \<mapsto> 900], data = []\<rparr> =
     Inr \<lparr>acinfo = Map.empty, last_seen = [hex_of 703710 \<mapsto> 900], data = []\<rparr>"
    by (simp add: out_then_in_def record_body_position is_identity_def in_range_iff)
  have h: "\<not> is_identity (out_then_in ! (4 + 1)) \<and>
   \<not> in_range (out_then_in ! (4 + 1)) (out_then_in ! (4 + 2)) \<and>
   4 + 7 < length out_then_in \<and> \<not> is_identity (out_then_in ! (4 + 5)) \<and>
   in_range (out_then_in ! (4 + 5)) (out_then_in ! (4 + 6))"
    by (simp add: out_then_in_def is_identity_def in_range_iff)
  have g: "case [hex_of 703710 \<mapsto> (900 :: real)] (hex_of (out_then_in ! (4 + 4))) of
             None \<Rightarrow> True | Some t0 \<Rightarrow> 60 \<le> round64 (1000 - t0)"
    by (simp add: out_then_in_def round64_examples)
  have p: "parse_binary_file (Content (view_u8 out_then_in)) =
     [mk_ac 1000 None None 703710 47000000 8000000 163840004]"
    by (simp add: out_then_in_def parse_eval)
  from last_seen_frame [of out_then_in 1000 4
      "\<lparr>acinfo = Map.empty, last_seen = [hex_of 703710 \<mapsto> 900], data = []\<rparr>"
      "\<lparr>acinfo = Map.empty, last_seen = [hex_of 703710 \<mapsto> 900], data = []\<rparr>" 1000]
    b h g p
  show ?thesis by (simp add: out_then_in_def)
qed

text \<open>
  Claim C8. Parsing one file always returns a list, and the list is empty in every failure
  case: a path that does not exist, a file that cannot be read, a file of length zero, a file
  with no sentinel word (or none at a word index that is a multiple of 4), a file shorter than
  16 bytes, and every exception raised inside the \<^verbatim>\<open>try\<close> statement. A file whose last
  record is cut after two words raises \<^verbatim>\<open>IndexError\<close> and yields nothing, although the
  record before it had been collected.
\<close>

theorem failures_yield_nothing:
  "parse_binary_file Missing = [] \<and>
   parse_binary_file Unreadable = [] \<and>
   parse_binary_file (Content []) = [] \<and>
   (sentinel \<notin> set (fromfile bs) \<longrightarrow> parse_binary_file (Content bs) = []) \<and>
   (find_slices (fromfile bs) = [] \<longrightarrow> parse_binary_file (Content bs) = []) \<and>
   (length bs < 16 \<longrightarrow> parse_binary_file (Content bs) = []) \<and>
   (try_body f = Inl e \<longrightarrow> parse_binary_file f = []) \<and>
   (w0 \<noteq> sentinel \<and> w0' \<noteq> sentinel \<longrightarrow>
      try_body (Content (view_u8 (one_position w0 lat lon w3 @ [w0', lat']))) = Inl IndexError \<and>
      parse_binary_file (Content (view_u8 (one_position w0 lat lon w3 @ [w0', lat']))) = [])"
proof (intro conjI impI)
  show "parse_binary_file Missing = []" by (simp add: parse_binary_file_def)
  show "parse_binary_file Unreadable = []" by (simp add: parse_binary_file_def try_body_def)
  show "parse_binary_file (Content []) = []" by (simp add: parse_binary_file_def try_body_def)
next
  assume "sentinel \<notin> set (fromfile bs)"
  then show "parse_binary_file (Content bs) = []"
    by (simp add: parse_binary_file_def try_body_def Let_def no_sentinel_no_slices)
next
  assume "find_slices (fromfile bs) = []"
  then show "parse_binary_file (Content bs) = []"
    by (simp add: parse_binary_file_def try_body_def Let_def)
next
  assume "length bs < 16"
  then show "parse_binary_file (Content bs) = []" by (rule parse_short)
next
  assume "try_body f = Inl e"
  then show "parse_binary_file f = []" by (simp add: parse_binary_file_def)
next
  assume "w0 \<noteq> sentinel \<and> w0' \<noteq> sentinel"
  then show "try_body (Content (view_u8 (one_position w0 lat lon w3 @ [w0', lat']))) = Inl IndexError"
    by (rule try_truncated)
next
  assume "w0 \<noteq> sentinel \<and> w0' \<noteq> sentinel"
  then show "parse_binary_file (Content (view_u8 (one_position w0 lat lon w3 @ [w0', lat']))) = []"
    by (simp add: parse_binary_file_def try_truncated)
qed

theorem failures_yield_nothing_witness:
  "sentinel \<notin> set (fromfile [1, 2, 3, 4, 5]) \<and>
   parse_binary_file (Content [1, 2, 3, 4, 5]) = [] \<and>
   find_slices (fromfile [1, 2, 3, 4, 5]) = [] \<and>
   length [1, 2, 3, 4, 5 :: u8] < 16 \<and>
   try_body Unreadable = Inl OSError \<and> parse_binary_file Unreadable = [] \<and>
   (703710 :: i32) \<noteq> sentinel \<and>
   try_body (Content (view_u8 (one_position 703710 47000000 8000000 163840004 @
      [703710, 47000000]))) = Inl IndexError \<and>
   parse_binary_file (Content (view_u8 (one_position 703710 47000000 8000000 163840004 @
      [703710, 47000000]))) = [] \<and>
   parse_binary_file (Content (view_u8 (one_position 703710 47000000 8000000 163840004))) \<noteq> []"
proof -
  have a: "sentinel \<notin> set (fromfile [1, 2, 3, 4, 5])"
    by (simp add: sentinel_def le32_def)
  have b: "length [1, 2, 3, 4, 5 :: u8] < 16" by simp
  have c: "try_body Unreadable = Inl OSError" by (simp add: try_body_def)
  have d: "(703710 :: i32) \<noteq> sentinel \<and> (703710 :: i32) \<noteq> sentinel" by (simp add: sentinel_def)
  have e: "parse_binary_file (Content (view_u8 (one_position 703710 47000000 8000000 163840004))) \<noteq> []"
    by (simp add: parse_one_position sentinel_def in_range_iff)
  from failures_yield_nothing [of "[1, 2, 3, 4, 5]" Unreadable OSError 703710 703710
      47000000 8000000 163840004 47000000] a b c d e
  show ?thesis by (simp add: no_sentinel_no_slices)
qed

text \<open>
  Claim C7 says that the stored squawk always has exactly 4 characters. \<^verbatim>\<open>%04d\<close> pads to
  4 characters and cuts nothing: an identity record whose low 16 bits are 10000 stores the
  five characters \<^verbatim>\<open>10000\<close>.
\<close>

theorem squawk_width_counterexample:
  "is_identity 1073751824 \<and>
   record_body (one_position 703710 1073751824 0 0) 1000 4
      \<lparr>acinfo = Map.empty, last_seen = Map.empty, data = []\<rparr> =
     Inr \<lparr>acinfo = [''0abcde'' \<mapsto> (None, ''10000'')], last_seen = Map.empty, data = []\<rparr> \<and>
   length ''10000'' = 5"
  by (simp add: one_position_def record_body_identity is_identity_def flight_at_def
      view_u8_def le_bytes_def field_eval)

text \<open>
  Claim C7, amended. An identity record (all four words in the array) stores for its hex the
  squawk that renders the low 16 bits of \<open>i32[1]\<close> in decimal, padded with zeros to at least
  4 characters: the string consists of decimal digits, reads back as the low 16 bits, and
  has exactly 4 characters when that value is below 10000 and 5 characters otherwise.
\<close>

theorem squawk_rendering:
  "(i + 3 < length points \<and> is_identity (points ! (i + 1)) \<longrightarrow>
      (\<exists>st'. record_body points now i st = Inr st' \<and>
         lookup_squawk (acinfo st') (hex_of (points ! i)) = Some (squawk_of (points ! (i + 1))))) \<and>
   digits_value 10 (squawk_of lat) = unat lat mod 65536 \<and>
   set (squawk_of lat) \<subseteq> set ''0123456789'' \<and>
   length (squawk_of lat) = (if unat lat mod 65536 < 10000 then 4 else 5)"
proof (intro conjI impI)
  assume "i + 3 < length points \<and> is_identity (points ! (i + 1))"
  then show "\<exists>st'. record_body points now i st = Inr st' \<and>
         lookup_squawk (acinfo st') (hex_of (points ! i)) = Some (squawk_of (points ! (i + 1)))"
    by (simp add: record_body_identity lookup_squawk_def)
next
  show "digits_value 10 (squawk_of lat) = unat lat mod 65536" by (rule digits_value_squawk_of)
next
  show "set (squawk_of lat) \<subseteq> set ''0123456789''" by (rule set_squawk_of)
next
  show "length (squawk_of lat) = (if unat lat mod 65536 < 10000 then 4 else 5)"
    by (rule length_squawk_of)
qed

theorem squawk_rendering_witness:
  "4 + 3 < length (one_position 703710 1073743624 0 0) \<and>
   is_identity (one_position 703710 1073743624 0 0 ! (4 + 1)) \<and>
   (\<exists>st'. record_body (one_position 703710 1073743624 0 0) 1000 4
        \<lparr>acinfo = Map.empty, last_seen = Map.empty, data = []\<rparr> = Inr st' \<and>
      lookup_squawk (acinfo st') (hex_of 703710) = Some ''1800'') \<and>
   length (squawk_of 1073743624) = 4"
proof -
  have h: "4 + 3 < length (one_position 703710 1073743624 0 0) \<and>
   is_identity (one_position 703710 1073743624 0 0 ! (4 + 1))"
    by (simp add: one_position_def is_identity_def)
  have s: "squawk_of 1073743624 = ''1800''" by (simp add: field_eval)
  have p: "one_position 703710 1073743624 0 0 ! 4 = 703710"
    "one_position 703710 1073743624 0 0 ! 5 = 1073743624"
    by (simp_all add: one_position_def)
  from squawk_rendering [of 4 "one_position 703710 1073743624 0 0" 1000
      "\<lparr>acinfo = Map.empty, last_seen = Map.empty, data = []\<rparr>" 1073743624] h
  show ?thesis by (simp add: s p)
qed

text \<open>
  Claim C1 says that the state table persists across the frames of a file, so that a position
  in a later frame carries the call sign and squawk of an identity record of an earlier frame.
  The loop over the frames assigns \<^verbatim>\<open>acinfo = {}\<close> at the start of every frame (line 113):
  the identity record of the first frame gives the hex \<^verbatim>\<open>0abcde\<close> the call sign
  \<^verbatim>\<open>BAW123\<close> and the squawk \<^verbatim>\<open>1800\<close>, and the position of the second frame is emitted
  with neither.
\<close>

theorem state_table_counterexample:
  "frame_table next_frame 0 1 ''0abcde'' = Some (Some ''BAW123  '', ''1800'') \<and>
   parse_binary_file (Content (view_u8 next_frame)) =
     [\<lparr>ac_t = 2000, ac_hex = ''0abcde'', ac_flight = None, ac_squawk = None,
       ac_lat = 47, ac_lon = 8, ac_alt = 100, ac_gs = Some 250, ac_type = 0\<rparr>]"
  by (simp add: parse_next_frame identity_write_def flight_at_example)
     (simp add: next_frame_def is_identity_def field_eval)

text \<open>
  Claim C1, amended. The down-sampler map persists across all frames of a file, the state
  table does not: it is empty at the start of every frame. Every emitted record carries the
  call sign and squawk that the identity records of its own frame, before it, have given its
  hex, and neither when there is none. The result of a frame does not depend on the state
  table it starts from; a frame only appends to the emitted list, and an entry of
  \<^verbatim>\<open>last_seen\<close> that a frame starts with is still there, unchanged or later, when it ends.
\<close>

theorem state_table_per_frame:
  "(a \<in> set (parse_binary_file f) \<longrightarrow>
      (\<exists>bs s k. f = Content bs \<and> emitted_at (fromfile bs) s k a \<and>
         ac_flight a = lookup_flight (frame_table (fromfile bs) s k) (ac_hex a) \<and>
         ac_squawk a = lookup_squawk (frame_table (fromfile bs) s k) (ac_hex a))) \<and>
   frame_table points s 0 = Map.empty \<and>
   frame_body points s (st\<lparr>acinfo := m\<rparr>) = frame_body points s st \<and>
   (frame_body points s st = Inr st' \<longrightarrow> (\<exists>new. data st' = data st @ new)) \<and>
   (frame_body points s st = Inr st' \<and> last_seen st h = Some t0 \<longrightarrow>
      (\<exists>t1. last_seen st' h = Some t1 \<and> t0 \<le> t1))"
proof (intro conjI impI)
  assume "a \<in> set (parse_binary_file f)"
  then obtain bs s k where "f = Content bs" and e: "emitted_at (fromfile bs) s k a"
    using parse_emitted by blast
  moreover from e have
    "ac_flight a = lookup_flight (frame_table (fromfile bs) s k) (ac_hex a)"
    "ac_squawk a = lookup_squawk (frame_table (fromfile bs) s k) (ac_hex a)"
    by (simp_all add: emitted_at_iff)
  ultimately show "\<exists>bs s k. f = Content bs \<and> emitted_at (fromfile bs) s k a \<and>
         ac_flight a = lookup_flight (frame_table (fromfile bs) s k) (ac_hex a) \<and>
         ac_squawk a = lookup_squawk (frame_table (fromfile bs) s k) (ac_hex a)"
    by blast
next
  show "frame_table points s 0 = Map.empty" by simp
next
  show "frame_body points s (st\<lparr>acinfo := m\<rparr>) = frame_body points s st"
    by (rule frame_body_reset)
next
  assume "frame_body points s st = Inr st'"
  then show "\<exists>new. data st' = data st @ new" by (rule frame_body_data_prefix)
next
  assume "frame_body points s st = Inr st' \<and> last_seen st h = Some t0"
  then show "\<exists>t1. last_seen st' h = Some t1 \<and> t0 \<le> t1"
    using frame_body_last_seen_mono by blast
qed

theorem state_table_per_frame_witness:
  "mk_ac 1000 (Some ''BAW123  '') (Some ''1800'') 703710 47000000 8000000 163840004 \<in>
     set (parse_binary_file (Content (view_u8 same_frame))) \<and>
   (\<exists>bs s k. Content (view_u8 same_frame) = Content bs \<and>
      emitted_at (fromfile bs) s k
        (mk_ac 1000 (Some ''BAW123  '') (Some ''1800'') 703710 47000000 8000000 163840004) \<and>
      lookup_flight (frame_table (fromfile bs) s k) (hex_of 703710) = Some ''BAW123  '') \<and>
   frame_body next_frame 8
      \<lparr>acinfo = [hex_of 703710 \<mapsto> (Some ''BAW123  '', ''1800'')],
       last_seen = [hex_of 703710 \<mapsto> 1950], data = []\<rparr> =
     Inr \<lparr>acinfo = Map.empty, last_seen = [hex_of 703710 \<mapsto> 1950], data = []\<rparr> \<and>
   (\<exists>t1. [hex_of 703710 \<mapsto> (1950 :: real)] (hex_of 703710) = Some t1 \<and> 1950 \<le> t1)"
proof -
  have m: "mk_ac 1000 (Some ''BAW123  '') (Some ''1800'') 703710 47000000 8000000 163840004 \<in>
     set (parse_binary_file (Content (view_u8 same_frame)))"
    by (simp add: parse_same_frame flight_at_example) (simp add: field_eval)
  have b: "frame_body next_frame 8
      \<lparr>acinfo = [hex_of 703710 \<mapsto> (Some ''BAW123  '', ''1800'')],
       last_seen = [hex_of 703710 \<mapsto> 1950], data = []\<rparr> =
     Inr \<lparr>acinfo = Map.empty, last_seen = [hex_of 703710 \<mapsto> 1950], data = []\<rparr>"
    by (simp add: next_frame_def sentinel_def frame_body_def getitem_def frame_time_examples
        while_records_step while_records_stop record_body_position is_identity_def
        in_range_iff gate_def round64_examples)
  from state_table_per_frame [where
      a = "mk_ac 1000 (Some ''BAW123  '') (Some ''1800'') 703710 47000000 8000000 163840004"
      and f = "Content (view_u8 same_frame)" and points = next_frame and s = 8
      and st = "\<lparr>acinfo = [hex_of 703710 \<mapsto> (Some ''BAW123  '', ''1800'')],
       last_seen = [hex_of 703710 \<mapsto> 1950], data = []\<rparr>"
      and m = "Map.empty"
      and st' = "\<lparr>acinfo = Map.empty, last_seen = [hex_of 703710 \<mapsto> 1950], data = []\<rparr>"
      and h = "hex_of 703710" and ?t0.0 = 1950] m b
  show ?thesis by simp metis
qed

text \<open>
  Claim C9 says that the tuple decoded from a position record that passes the range test
  writes back to the 16 bytes of the record. The decoder reads bits 0 to 24 and 27 to 31 of
  the first word and never bits 25 and 26: two records that differ in bit 25 alone decode to
  the same tuple, so that no encoder gives both back, and the encoder of section 3 gives back
  the one with the bit clear.
\<close>

theorem record_roundtrip_counterexample:
  "\<not> is_identity 47000000 \<and> in_range 47000000 8000000 \<and>
   decoded_tuple (fromfile (view_u8 (one_position 34258142 47000000 8000000 163840004))) 4 =
     decoded_tuple (fromfile (view_u8 (one_position 703710 47000000 8000000 163840004))) 4 \<and>
   take 16 (drop (4 * 4) (view_u8 (one_position 34258142 47000000 8000000 163840004))) \<noteq>
     take 16 (drop (4 * 4) (view_u8 (one_position 703710 47000000 8000000 163840004))) \<and>
   encode_record
       (decoded_tuple (fromfile (view_u8 (one_position 34258142 47000000 8000000 163840004))) 4) \<noteq>
     take 16 (drop (4 * 4) (view_u8 (one_position 34258142 47000000 8000000 163840004)))"
proof -
  have r: "\<not> is_identity 47000000 \<and> in_range 47000000 8000000"
    by (simp add: is_identity_def in_range_iff)
  have d: "decoded_tuple (one_position 34258142 47000000 8000000 163840004) 4 =
      decoded_tuple (one_position 703710 47000000 8000000 163840004) 4"
    by (simp add: decoded_tuple_def one_position_def hex_of_def type_num_def)
  have b: "take 16 (drop 16 (view_u8 (one_position w0 lat lon w3))) =
      le_bytes w0 @ le_bytes lat @ le_bytes lon @ le_bytes w3" for w0 lat lon w3
    using record_bytes [of 4 "view_u8 (one_position w0 lat lon w3)"]
    by (simp add: fromfile_view_u8 one_position_def)
  have n: "le_bytes 34258142 \<noteq> le_bytes 703710"
    by (simp add: le_bytes_def)
  have e: "encode_record (decoded_tuple (one_position 703710 47000000 8000000 163840004) 4) =
      le_bytes 703710 @ le_bytes 47000000 @ le_bytes 8000000 @ le_bytes 163840004"
    using encode_decoded [of 703710 47000000 8000000 163840004]
    by (simp add: decoded_tuple_def one_position_def)
  from r d n e show ?thesis
    by (simp add: fromfile_view_u8 b del: One_nat_def)
qed

text \<open>
  Claim C9, amended. For every position record that passes the range test and whose first
  word has bits 25 and 26 clear, encoding the decoded tuple by the layout of section 3 gives
  the 16 bytes of the record in the file.
\<close>

theorem record_roundtrip:
  "i + 3 < length (fromfile bs) \<and> \<not> is_identity (fromfile bs ! (i + 1)) \<and>
   in_range (fromfile bs ! (i + 1)) (fromfile bs ! (i + 2)) \<and>
   \<not> bit (fromfile bs ! i) 25 \<and> \<not> bit (fromfile bs ! i) 26 \<longrightarrow>
     encode_record (decoded_tuple (fromfile bs) i) = take 16 (drop (4 * i) bs)"
proof
  assume h: "i + 3 < length (fromfile bs) \<and> \<not> is_identity (fromfile bs ! (i + 1)) \<and>
   in_range (fromfile bs ! (i + 1)) (fromfile bs ! (i + 2)) \<and>
   \<not> bit (fromfile bs ! i) 25 \<and> \<not> bit (fromfile bs ! i) 26"
  then have "encode_record (decoded_tuple (fromfile bs) i) =
     le_bytes (fromfile bs ! i) @ le_bytes (fromfile bs ! (i + 1)) @
     le_bytes (fromfile bs ! (i + 2)) @ le_bytes (fromfile bs ! (i + 3))"
    unfolding decoded_tuple_def by (intro encode_decoded) simp_all
  with h show "encode_record (decoded_tuple (fromfile bs) i) = take 16 (drop (4 * i) bs)"
    by (simp only: record_bytes)
qed

theorem record_roundtrip_witness:
  "4 + 3 < length (fromfile (view_u8 (one_position 703710 47000000 8000000 163840004))) \<and>
   \<not> is_identity (fromfile (view_u8 (one_position 703710 47000000 8000000 163840004)) ! (4 + 1)) \<and>
   in_range (fromfile (view_u8 (one_position 703710 47000000 8000000 163840004)) ! (4 + 1))
     (fromfile (view_u8 (one_position 703710 47000000 8000000 163840004)) ! (4 + 2)) \<and>
   \<not> bit (fromfile (view_u8 (one_position 703710 47000000 8000000 163840004)) ! 4) 25 \<and>
   \<not> bit (fromfile (view_u8 (one_position 703710 47000000 8000000 163840004)) ! 4) 26 \<and>
   encode_record (''0abcde'', 0, 47000000, 8000000, 4, 2500) =
     take 16 (drop (4 * 4) (view_u8 (one_position 703710 47000000 8000000 163840004))) \<and>
   take 16 (drop (4 * 4) (view_u8 (one_position 703710 47000000 8000000 163840004))) =
     [222, 188, 10, 0, 192, 41, 205, 2, 0, 18, 122, 0, 4, 0, 196, 9]"
proof -
  have h: "4 + 3 < length (fromfile (view_u8 (one_position 703710 47000000 8000000 163840004))) \<and>
   \<not> is_identity (fromfile (view_u8 (one_position 703710 47000000 8000000 163840004)) ! (4 + 1)) \<and>
   in_range (fromfile (view_u8 (one_position 703710 47000000 8000000 163840004)) ! (4 + 1))
     (fromfile (view_u8 (one_position 703710 47000000 8000000 163840004)) ! (4 + 2)) \<and>
   \<not> bit (fromfile (view_u8 (one_position 703710 47000000 8000000 163840004)) ! 4) 25 \<and>
   \<not> bit (fromfile (view_u8 (one_position 703710 47000000 8000000 163840004)) ! 4) 26"
    by (simp add: fromfile_view_u8 one_position_def is_identity_def in_range_iff)
  have d: "decoded_tuple (fromfile (view_u8 (one_position 703710 47000000 8000000 163840004))) 4 =
      (''0abcde'', 0, 47000000, 8000000, 4, 2500)"
    by (simp add: fromfile_view_u8 one_position_def decoded_tuple_def field_eval)
  have b: "take 16 (drop 16 (view_u8 (one_position 703710 47000000 8000000 163840004))) =
     [222, 188, 10, 0, 192, 41, 205, 2, 0, 18, 122, 0, 4, 0, 196, 9]"
    by (simp add: one_position_def view_u8_def le_bytes_def)
  from record_roundtrip [of 4 "view_u8 (one_position 703710 47000000 8000000 163840004)"] h d b
  show ?thesis by (simp del: One_nat_def)
qed

end
